theory Spec2Isabelle
  imports Complex_Main "HOL-Library.Char_ord" "HOL-Library.List_Lexorder" "HOL-Library.Log_Nat"
begin

section \<open>JavaScript values used by the ledger code\<close>

text \<open>
  The repository holds two implementations of the \<open>Database\<close> module over the same
  Firestore collections (\<open>members\<close>, \<open>submissions\<close>, \<open>interestPool\<close>):
  \<^item> the dual-store module (file part_006, header "DUAL DATABASE ARCHITECTURE"), whose
    functions keep their source names here (\<open>submitPOP\<close>, \<open>approveSubmission\<close>, ...);
  \<^item> the single-store module appended to js/submit-pop.js (header "DATABASE OPERATIONS
    (UPDATED)"), whose functions carry the prefix \<open>upd_\<close> where the name clashes; the
    recalculation functions exist only there and keep their names.
  Likewise the OTP check exists twice: \<open>verifyOTP\<close> is the one of part_001 (SMSPortal),
  \<open>mp_verifyOTP\<close> the one of js/sms.js (multi-provider).

  Modelling conventions.
  \<^item> A string is a \<open>char list\<close> of code units below 256.
  \<^item> A JavaScript number is a value of \<open>number\<close>: \<open>NaN\<close>, an infinity, or a finite double
    given by its rational value; the sum of two numbers is rounded to the nearest double
    (section Numbers). Amounts, fines, totals, settings and the year of an interest pool
    bucket are numbers. Counters that only move by one, list lengths, days of the month
    and calendar years are \<open>int\<close>. \<open>undefined\<close> is \<open>None\<close> of an \<open>option\<close>.
  \<^item> \<open>FieldValue.increment\<close> is Firestore's own addition. It adds doubles whenever the
    field or the operand is not an integer, and 64-bit integers otherwise, with the same
    result as long as that stays below \<open>2^53\<close> in absolute value; the model adds doubles.
  \<^item> A Firestore collection written only by \<open>add\<close> and \<open>update\<close> is a list; the
    auto-generated document id is the index of the document in the list.
  \<^item> Every operation returns the store it leaves behind together with its result or the
    exception it throws, since some writes precede a throw.
  \<^item> The Realtime Database mirror of the totals, the audit log and the SMS dispatch are
    written after the Firestore writes and are never read back by the modelled functions;
    only the two Realtime Database counters that generate references are part of the state.
  \<^item> Server timestamps and the fields no modelled function reads (email, date of birth,
    proof image, notes, who verified or rejected) are left out of the documents.
  \<^item> The store is taken to be reachable: the only store failures modelled are the ones
    the code itself provokes (an update of a document that does not exist, a field set to
    \<open>undefined\<close>).
\<close>

definition is_digit :: "char \<Rightarrow> bool" where
  \<comment> \<open>the regular expression class \<open>\d\<close>\<close>
  "is_digit c = (48 \<le> (of_char c :: nat) \<and> (of_char c :: nat) \<le> 57)"

definition digit_val :: "char \<Rightarrow> int" where
  "digit_val c = int (of_char c) - 48"

definition is_space :: "char \<Rightarrow> bool" where
  \<comment> \<open>the regular expression class \<open>\s\<close> and the characters \<open>trim()\<close> strips,
      among the code units below 256: tab, LF, VT, FF, CR, space, NBSP\<close>
  "is_space c = ((of_char c :: nat) \<in> {9, 10, 11, 12, 13, 32, 160})"

definition trim :: "string \<Rightarrow> string" where
  "trim s = rev (dropWhile is_space (rev (dropWhile is_space s)))"

definition normalizePhone :: "string \<Rightarrow> string" where
  \<comment> \<open>\<^verbatim>\<open>phone.replace(/[\s-]/g, '')\<close>\<close>
  "normalizePhone p = filter (\<lambda>c. \<not> is_space c \<and> c \<noteq> CHR ''-'') p"

subsection \<open>Numbers\<close>

text \<open>
  The finite values of \<open>number\<close> that the functions below produce are the IEEE 754
  binary64 values; \<open>Num q\<close> stands for the double whose value is the rational \<open>q\<close>. The two
  zeros are one value: no modelled operation (\<open>+\<close>, \<open>||\<close>, the comparisons, \<open>isNaN\<close>,
  \<open>toString\<close>) tells them apart.
\<close>

datatype number = NaN | PlusInfinity | MinusInfinity | Num rat

definition whole :: "int \<Rightarrow> number" where
  \<comment> \<open>the number with a small integer value (a calendar year, a day of the month)\<close>
  "whole k = Num (of_int k)"

definition pow2 :: "int \<Rightarrow> rat" where
  "pow2 k = (if 0 \<le> k then 2 ^ nat k else 1 / 2 ^ nat (- k))"

definition floor_log2 :: "rat \<Rightarrow> int" where
  \<comment> \<open>for \<open>q > 0\<close>, the exponent \<open>e\<close> with \<open>2^e \<le> q < 2^(e+1)\<close>\<close>
  "floor_log2 q = (case quotient_of q of (n, d) \<Rightarrow>
     let k = bitlen n - bitlen d in if pow2 k \<le> q then k else k - 1)"

definition round_half_even :: "rat \<Rightarrow> int" where
  \<comment> \<open>the nearest integer, the even one of the two when they are equally near\<close>
  "round_half_even x = (let f = \<lfloor>x\<rfloor>; r = x - of_int f in
     if r < 1 / 2 then f else if 1 / 2 < r then f + 1 else if even f then f else f + 1)"

definition round_pos :: "rat \<Rightarrow> number" where
  \<comment> \<open>a positive rational rounded to binary64: 53 significant bits \<open>m\<close> at the exponent
      \<open>e\<close> of the value, or at \<open>-1022\<close> for a smaller one (the spacing of the subnormal
      numbers, \<open>2^-1074\<close>); \<open>Infinity\<close> when the rounded value reaches \<open>2^1024\<close>\<close>
  "round_pos a = (let e = floor_log2 a;
                      u = pow2 (max e (- 1022) - 52);
                      m = round_half_even (a / u)
                  in if 1024 \<le> e \<or> (e = 1023 \<and> m = 2 ^ 53) then PlusInfinity
                     else Num (of_int m * u))"

definition to_double :: "rat \<Rightarrow> number" where
  \<comment> \<open>round to nearest, ties to even\<close>
  "to_double q = (if q = 0 then Num 0
     else if 0 < q then round_pos q
     else (case round_pos (- q) of Num r \<Rightarrow> Num (- r) | _ \<Rightarrow> MinusInfinity))"

fun js_add :: "number \<Rightarrow> number \<Rightarrow> number" where
  \<comment> \<open>\<^verbatim>\<open>x + y\<close> on numbers\<close>
  "js_add (Num a) (Num b) = to_double (a + b)"
| "js_add NaN y = NaN"
| "js_add x NaN = NaN"
| "js_add PlusInfinity MinusInfinity = NaN"
| "js_add MinusInfinity PlusInfinity = NaN"
| "js_add PlusInfinity y = PlusInfinity"
| "js_add x PlusInfinity = PlusInfinity"
| "js_add MinusInfinity y = MinusInfinity"
| "js_add x MinusInfinity = MinusInfinity"

fun js_lt :: "number \<Rightarrow> number \<Rightarrow> bool" where
  \<comment> \<open>\<^verbatim>\<open>x < y\<close>; \<^verbatim>\<open>x > y\<close> is \<open>js_lt y x\<close>. A comparison with \<open>NaN\<close> is false.\<close>
  "js_lt (Num a) (Num b) = (a < b)"
| "js_lt NaN y = False"
| "js_lt x NaN = False"
| "js_lt x MinusInfinity = False"
| "js_lt MinusInfinity y = True"
| "js_lt PlusInfinity y = False"
| "js_lt x PlusInfinity = True"

fun js_le :: "number \<Rightarrow> number \<Rightarrow> bool" where
  \<comment> \<open>\<^verbatim>\<open>x <= y\<close>; \<^verbatim>\<open>x >= y\<close> is \<open>js_le y x\<close>\<close>
  "js_le (Num a) (Num b) = (a \<le> b)"
| "js_le NaN y = False"
| "js_le x NaN = False"
| "js_le MinusInfinity y = True"
| "js_le x PlusInfinity = True"
| "js_le x MinusInfinity = False"
| "js_le PlusInfinity y = False"

fun orElse :: "number option \<Rightarrow> number \<Rightarrow> number" where
  \<comment> \<open>\<^verbatim>\<open>x || d\<close> for a number-valued property \<open>x\<close> that may be undefined (\<open>None\<close>):
      \<open>undefined\<close>, \<open>NaN\<close> and zero are falsy\<close>
  "orElse None d = d"
| "orElse (Some v) d = (if v = NaN \<or> v = Num 0 then d else v)"

fun orElseInt :: "int option \<Rightarrow> int \<Rightarrow> int" where
  \<comment> \<open>\<^verbatim>\<open>x || d\<close> for a Realtime Database counter\<close>
  "orElseInt None d = d"
| "orElseInt (Some v) d = (if v = 0 then d else v)"

fun gt_undef :: "number \<Rightarrow> number option \<Rightarrow> bool" where
  \<comment> \<open>\<^verbatim>\<open>a > x\<close>: a comparison with \<open>undefined\<close> is false\<close>
  "gt_undef a None = False"
| "gt_undef a (Some b) = js_lt b a"

fun lt_undef :: "number \<Rightarrow> number option \<Rightarrow> bool" where
  \<comment> \<open>\<^verbatim>\<open>a < x\<close>\<close>
  "lt_undef a None = False"
| "lt_undef a (Some b) = js_lt a b"

fun ge_undef :: "number \<Rightarrow> number option \<Rightarrow> bool" where
  \<comment> \<open>\<^verbatim>\<open>a >= x\<close>\<close>
  "ge_undef a None = False"
| "ge_undef a (Some b) = js_le b a"

subsection \<open>\<open>parseInt\<close>, \<open>split\<close> and the year of a payment-month label\<close>

definition hex_val :: "char \<Rightarrow> int option" where
  "hex_val c = (let n = (of_char c :: nat) in
     if 48 \<le> n \<and> n \<le> 57 then Some (int n - 48)
     else if 97 \<le> n \<and> n \<le> 102 then Some (int n - 87)
     else if 65 \<le> n \<and> n \<le> 70 then Some (int n - 55)
     else None)"

definition radix_val :: "int \<Rightarrow> char \<Rightarrow> int option" where
  "radix_val r c = (if r = 16 then hex_val c else if is_digit c then Some (digit_val c) else None)"

fun digits_value :: "int \<Rightarrow> int \<Rightarrow> string \<Rightarrow> int" where
  \<comment> \<open>the value of the longest prefix of digits of the radix, from the accumulator\<close>
  "digits_value r acc [] = acc"
| "digits_value r acc (c # cs) =
     (case radix_val r c of None \<Rightarrow> acc | Some d \<Rightarrow> digits_value r (acc * r + d) cs)"

definition parseInt :: "string \<Rightarrow> number" where
  \<comment> \<open>\<open>parseInt(s)\<close> with no radix argument: leading white space is skipped, one sign
      is read, a prefix \<open>0x\<close> or \<open>0X\<close> selects radix 16, then the longest prefix of digits
      is read; no digit gives \<open>NaN\<close>. The result is the number nearest to the integer
      read (beyond 20 significant decimal digits the language allows an approximation
      of the integer; the model keeps it exact before rounding).\<close>
  "parseInt s =
     (let s1 = dropWhile is_space s;
          neg = (s1 \<noteq> [] \<and> hd s1 = CHR ''-'');
          s2 = (if s1 \<noteq> [] \<and> (hd s1 = CHR ''-'' \<or> hd s1 = CHR ''+'') then tl s1 else s1);
          hex = (take 2 s2 = ''0x'' \<or> take 2 s2 = ''0X'');
          r = (if hex then 16 else 10);
          s3 = (if hex then drop 2 s2 else s2)
      in case s3 of
           [] \<Rightarrow> NaN
         | c # cs \<Rightarrow>
             (case radix_val r c of
                None \<Rightarrow> NaN
              | Some d \<Rightarrow> to_double (of_int ((if neg then -1 else 1) * digits_value r 0 s3))))"

fun split_on :: "char \<Rightarrow> string \<Rightarrow> string list" where
  \<comment> \<open>\<open>s.split(c)\<close> for a one-character separator: never an empty array\<close>
  "split_on sep [] = [[]]"
| "split_on sep (c # cs) =
     (if c = sep then [] # split_on sep cs
      else (case split_on sep cs of [] \<Rightarrow> [[c]] | t # ts \<Rightarrow> (c # t) # ts))"

fun match4 :: "string \<Rightarrow> string option" where
  \<comment> \<open>\<^verbatim>\<open>s.match(/\d{4}/)\<close>: the leftmost run of four digits\<close>
  "match4 (a # b # c # d # rest) =
     (if is_digit a \<and> is_digit b \<and> is_digit c \<and> is_digit d then Some [a, b, c, d]
      else match4 (b # c # d # rest))"
| "match4 _ = None"

definition extractYearFromMonth :: "int \<Rightarrow> string \<Rightarrow> number" where
  \<comment> \<open>part_006, \<open>Database.extractYearFromMonth\<close>. The first argument is
      \<open>new Date().getFullYear()\<close> at the time of the call.
      \<^verbatim>\<open>if (!paymentMonth) return new Date().getFullYear();
        const match = paymentMonth.match(/\d{4}/);
        return match ? parseInt(match[0]) : new Date().getFullYear();\<close>\<close>
  "extractYearFromMonth nowYear paymentMonth =
     (if paymentMonth = [] then whole nowYear
      else case match4 paymentMonth of
             Some m \<Rightarrow> parseInt m
           | None \<Rightarrow> whole nowYear)"

definition upd_paymentYear :: "int \<Rightarrow> string \<Rightarrow> number" where
  \<comment> \<open>js/submit-pop.js, inside \<open>Database.approveSubmission\<close>:
      \<^verbatim>\<open>const monthParts = submission.paymentMonth.split(' ');
        const paymentYear = monthParts.length > 1
            ? parseInt(monthParts[1]) : new Date().getFullYear();\<close>\<close>
  "upd_paymentYear nowYear paymentMonth =
     (let monthParts = split_on CHR '' '' paymentMonth
      in if length monthParts > 1 then parseInt (monthParts ! 1) else whole nowYear)"

section \<open>The Firestore documents and the store\<close>

datatype status = Pending | Verified | Rejected

datatype reference = Counter int | Random string
  \<comment> \<open>\<open>Counter n\<close> is the reference \<open>TRF-n\<close> (or \<open>TRF-Mn\<close>) built from a Realtime Database
      counter; \<open>Random cs\<close> is the prefix followed by the random characters \<open>cs\<close>\<close>

datatype error =
    PhoneAlreadyRegistered
  | IdAlreadyRegistered
  | MinimumContribution
  | UnsupportedFieldValue
  | SubmissionNotFound
  | SubmissionAlreadyProcessed
  | MemberNotFound
  | NoDocumentToUpdate

record stats =
  totalSavings :: number
  totalFines :: number
  submissionCount :: int
  verifiedCount :: int
  pendingCount :: int
  rejectedCount :: int
  qualifiesForInterest :: bool

text \<open>
  A member document carries the seven aggregate fields of \<open>stats\<close> (the object
  \<open>recalculateMemberStats\<close> returns has exactly these) and the identity fields.
\<close>

record member = stats +
  name :: string
  phone :: string
  idNumber :: string
  passwordHash :: string
  memberRef :: reference
  lastPaymentMonth :: "string option"
  skippedMonths :: int
  consecutiveMonths :: int

record submission =
  reference :: reference
  memberId :: "nat option"
  sub_name :: string
  sub_phone :: string
  amount :: number
  fineAmount :: number
  paymentMonth :: string
  isLate :: bool
  status :: status
  rejectionReason :: "string option"

record pool_entry =
  year :: number
  poolTotalFines :: number
  fineCount :: int

record db =
  members :: "member list"
  submissions :: "submission list"
  interestPool :: "number \<Rightarrow> pool_entry option"
  memberNumber :: "int option"
  submissionNumber :: "int option"

text \<open>
  \<open>interestPool\<close> is keyed by \<open>paymentYear.toString()\<close>, which is one-to-one on the
  values of \<open>number\<close>. \<open>memberNumber\<close> and \<open>submissionNumber\<close> are the Realtime Database
  counters \<open>stokvel/counters/...\<close> (\<open>None\<close> before the first transaction).
\<close>

definition empty_db :: db where
  "empty_db = \<lparr>members = [], submissions = [], interestPool = (\<lambda>_. None),
               memberNumber = None, submissionNumber = None\<rparr>"

text \<open>
  The settings object \<open>APP_SETTINGS\<close> is a map from property names to numbers; reading a
  property it does not have gives \<open>undefined\<close> (\<open>None\<close>). \<open>repo_settings\<close> holds the numeric
  properties of the object the repository's firebase-config.js declares. The dual-store
  module reads the properties \<open>minimumContribution\<close>, \<open>lateFee\<close> and \<open>paymentDeadlineDay\<close>,
  which that object does not have (they are properties of \<open>DB_SETTINGS\<close>, a constant the
  functions never read).
\<close>

type_synonym settings = "string \<Rightarrow> number option"

definition repo_settings :: settings where
  "repo_settings = map_of
     [(''minimumDeposit'', Num 300), (''lateFineAmount'', Num 50), (''paymentDueDay'', Num 7),
      (''interestEligibilityMin'', Num 10000), (''maxSkippedMonths'', Num 3)]"

definition db_settings :: settings where
  \<comment> \<open>the values of \<open>DB_SETTINGS\<close> in part_006, under the names the module reads\<close>
  "db_settings = map_of
     [(''minimumContribution'', Num 300), (''lateFee'', Num 50), (''paymentDeadlineDay'', Num 7),
      (''interestEligibilityMin'', Num 10000)]"

subsection \<open>Lookups\<close>

definition getMember :: "db \<Rightarrow> nat \<Rightarrow> member option" where
  "getMember st i = (if i < length (members st) then Some (members st ! i) else None)"

definition getSubmission :: "db \<Rightarrow> nat \<Rightarrow> submission option" where
  "getSubmission st i =
     (if i < length (submissions st) then Some (submissions st ! i) else None)"

fun find_from :: "nat \<Rightarrow> ('a \<Rightarrow> bool) \<Rightarrow> 'a list \<Rightarrow> (nat \<times> 'a) option" where
  \<comment> \<open>a query \<open>where(...).limit(1)\<close>: the first matching document, with its id\<close>
  "find_from i P [] = None"
| "find_from i P (x # xs) = (if P x then Some (i, x) else find_from (Suc i) P xs)"

definition getMemberByPhone :: "db \<Rightarrow> string \<Rightarrow> (nat \<times> member) option" where
  "getMemberByPhone st ph = find_from 0 (\<lambda>m. phone m = normalizePhone ph) (members st)"

definition getMemberByIdNumber :: "db \<Rightarrow> string \<Rightarrow> (nat \<times> member) option" where
  "getMemberByIdNumber st idn = find_from 0 (\<lambda>m. idNumber m = idn) (members st)"

subsection \<open>Password hashing and registration\<close>

definition hex_digit :: "nat \<Rightarrow> char" where
  "hex_digit n = (if n < 10 then char_of (48 + n) else char_of (87 + n))"

definition hex_byte :: "char \<Rightarrow> string" where
  \<comment> \<open>\<^verbatim>\<open>b.toString(16).padStart(2, '0')\<close>\<close>
  "hex_byte b = [hex_digit ((of_char b :: nat) div 16), hex_digit ((of_char b :: nat) mod 16)]"

definition utf8_encode :: "string \<Rightarrow> string" where
  \<comment> \<open>\<open>TextEncoder.encode\<close> on code units below 256\<close>
  "utf8_encode s = concat (map (\<lambda>c. let n = (of_char c :: nat) in
       if n < 128 then [c] else [char_of (192 + n div 64), char_of (128 + n mod 64)]) s)"

text \<open>
  \<open>crypto.subtle.digest('SHA-256', data)\<close> is the browser's primitive; the model takes
  it as the parameter \<open>D\<close>, a function from the bytes of the message to the bytes of
  the digest.
\<close>

definition hashPassword :: "(string \<Rightarrow> string) \<Rightarrow> string \<Rightarrow> string" where
  \<comment> \<open>part_006: \<^verbatim>\<open>const data = encoder.encode(password);\<close>\<close>
  "hashPassword D password = concat (map hex_byte (D (utf8_encode password)))"

definition upd_hashPassword :: "(string \<Rightarrow> string) \<Rightarrow> string \<Rightarrow> string" where
  \<comment> \<open>js/submit-pop.js: \<^verbatim>\<open>const data = encoder.encode(password + 'tshikota_salt_2024');\<close>\<close>
  "upd_hashPassword D password =
     concat (map hex_byte (D (utf8_encode (password @ ''tshikota_salt_2024''))))"

record member_data =
  reg_name :: string
  reg_idNumber :: string
  reg_phone :: string
  reg_password :: string

definition new_member :: "string \<Rightarrow> string \<Rightarrow> string \<Rightarrow> string \<Rightarrow> reference \<Rightarrow> member" where
  \<comment> \<open>the document both \<open>registerMember\<close> functions add: all aggregates start at zero\<close>
  "new_member nm idn ph pwHash ref =
     \<lparr>totalSavings = Num 0, totalFines = Num 0, submissionCount = 0, verifiedCount = 0,
      pendingCount = 0, rejectedCount = 0, qualifiesForInterest = False,
      name = nm, phone = ph, idNumber = idn, passwordHash = pwHash, memberRef = ref,
      lastPaymentMonth = None, skippedMonths = 0, consecutiveMonths = 0\<rparr>"

definition registerMember ::
  "(string \<Rightarrow> string) \<Rightarrow> member_data \<Rightarrow> db \<Rightarrow> (error + nat \<times> reference) \<times> db" where
  \<comment> \<open>part_006. The member reference comes from the counter
      \<^verbatim>\<open>transaction(current => (current || 1000) + 1)\<close>, after both uniqueness checks.\<close>
  "registerMember D memberData st =
     (let normalizedPhone = normalizePhone (reg_phone memberData) in
      if getMemberByPhone st normalizedPhone \<noteq> None then (Inl PhoneAlreadyRegistered, st)
      else if getMemberByIdNumber st (reg_idNumber memberData) \<noteq> None
        then (Inl IdAlreadyRegistered, st)
      else
        let n = orElseInt (memberNumber st) 1000 + 1;
            ref = Counter n;
            pwHash = hashPassword D (reg_password memberData);
            doc = new_member (trim (reg_name memberData)) (reg_idNumber memberData)
                    normalizedPhone pwHash ref
        in (Inr (length (members st), ref),
            st\<lparr>memberNumber := Some n, members := members st @ [doc]\<rparr>))"

definition upd_registerMember ::
  "(string \<Rightarrow> string) \<Rightarrow> string \<Rightarrow> member_data \<Rightarrow> db \<Rightarrow> (error + nat \<times> reference) \<times> db" where
  \<comment> \<open>js/submit-pop.js. \<open>rnd\<close> is the four random characters of \<open>generateMemberRef\<close>.\<close>
  "upd_registerMember D rnd memberData st =
     (let normalizedPhone = normalizePhone (reg_phone memberData) in
      if getMemberByPhone st normalizedPhone \<noteq> None then (Inl PhoneAlreadyRegistered, st)
      else if getMemberByIdNumber st (reg_idNumber memberData) \<noteq> None
        then (Inl IdAlreadyRegistered, st)
      else
        let ref = Random rnd;
            pwHash = upd_hashPassword D (reg_password memberData);
            doc = new_member (trim (reg_name memberData)) (reg_idNumber memberData)
                    normalizedPhone pwHash ref
        in (Inr (length (members st), ref), st\<lparr>members := members st @ [doc]\<rparr>))"

definition verifyMemberLogin ::
  "(string \<Rightarrow> string) \<Rightarrow> db \<Rightarrow> string \<Rightarrow> string \<Rightarrow> (nat \<times> member) option" where
  \<comment> \<open>part_006: \<open>null\<close> when no member has the phone or the hashes differ, the member
      otherwise (the audit log entry it then writes is outside the state)\<close>
  "verifyMemberLogin D st ph password =
     (case getMemberByPhone st ph of
        None \<Rightarrow> None
      | Some (i, m) \<Rightarrow>
          (if passwordHash m \<noteq> hashPassword D password then None else Some (i, m)))"

section \<open>The dual-store module (part_006)\<close>

record pop_data =
  pop_name :: string
  pop_phone :: string
  pop_amount :: number
  pop_paymentDate :: "int option"
  pop_paymentMonth :: string

text \<open>
  \<open>pop_amount\<close> is \<open>parseFloat(submissionData.amount)\<close>.
  \<open>pop_paymentDate\<close> is \<open>new Date(submissionData.paymentDate).getDate()\<close>, the day of
  the month of a valid date, \<open>None\<close> when the field is empty; the argument \<open>today\<close> of
  \<open>submitPOP\<close> is \<open>new Date().getDate()\<close> and \<open>nowYear\<close> below is
  \<open>new Date().getFullYear()\<close>.
\<close>

definition pool_add ::
  "number \<Rightarrow> number \<Rightarrow> int \<Rightarrow> (number \<Rightarrow> pool_entry option) \<Rightarrow> (number \<Rightarrow> pool_entry option)" where
  \<comment> \<open>\<^verbatim>\<open>batch.set(ref, {year: y, totalFines: increment(f), fineCount: increment(n)},
        {merge: true})\<close> on the document keyed by \<open>y\<close>\<close>
  "pool_add y f n pool =
     pool(y \<mapsto> (case pool y of
                    None \<Rightarrow> \<lparr>year = y, poolTotalFines = f, fineCount = n\<rparr>
                  | Some e \<Rightarrow> e\<lparr>year := y, poolTotalFines := js_add (poolTotalFines e) f,
                                fineCount := fineCount e + n\<rparr>))"

definition submitPOP ::
  "settings \<Rightarrow> int \<Rightarrow> pop_data \<Rightarrow> db \<Rightarrow> (error + reference) \<times> db" where
  \<comment> \<open>part_006, lines 477-616. The reference counter is advanced before the amount is
      validated: \<^verbatim>\<open>if (isNaN(amount) || amount < APP_SETTINGS.minimumContribution)
        throw new Error(...)\<close>. An \<open>undefined\<close> fine (late payment, no \<open>lateFee\<close>
      setting) makes Firestore's \<open>add\<close> throw.\<close>
  "submitPOP cfg today submissionData st =
     (let normalizedPhone = normalizePhone (pop_phone submissionData);
          member = getMemberByPhone st normalizedPhone;
          n = orElseInt (submissionNumber st) 10000 + 1;
          st1 = st\<lparr>submissionNumber := Some n\<rparr>;
          day = (case pop_paymentDate submissionData of Some d \<Rightarrow> d | None \<Rightarrow> today);
          late = gt_undef (whole day) (cfg ''paymentDeadlineDay'');
          fine = (if late then cfg ''lateFee'' else Some (Num 0));
          amt = pop_amount submissionData
      in if amt = NaN \<or> lt_undef amt (cfg ''minimumContribution'')
         then (Inl MinimumContribution, st1)
         else (case fine of
                None \<Rightarrow> (Inl UnsupportedFieldValue, st1)
              | Some f \<Rightarrow>
                  let doc = \<lparr>reference = Counter n, memberId = map_option fst member,
                             sub_name = trim (pop_name submissionData),
                             sub_phone = normalizedPhone, amount = amt, fineAmount = f,
                             paymentMonth = pop_paymentMonth submissionData, isLate = late,
                             status = Pending, rejectionReason = None\<rparr>;
                      st2 = st1\<lparr>submissions := submissions st1 @ [doc]\<rparr>
                  in (Inr (Counter n),
                      case member of
                        None \<Rightarrow> st2
                      | Some (mid, m) \<Rightarrow>
                          st2\<lparr>members := (members st2)
                            [mid := m\<lparr>submissionCount := submissionCount m + 1,
                                      pendingCount := pendingCount m + 1\<rparr>]\<rparr>)))"

definition approveSubmission ::
  "settings \<Rightarrow> int \<Rightarrow> nat \<Rightarrow> db \<Rightarrow> (error + unit) \<times> db" where
  \<comment> \<open>part_006, lines 751-919: both guards come before any write; the batch then
      updates the submission, the linked member when it exists, and the interest pool.\<close>
  "approveSubmission cfg nowYear submissionId st =
     (case getSubmission st submissionId of
        None \<Rightarrow> (Inl SubmissionNotFound, st)
      | Some sub \<Rightarrow>
          if status sub \<noteq> Pending then (Inl SubmissionAlreadyProcessed, st)
          else
            let amt = orElse (Some (amount sub)) (Num 0);
                fine = orElse (Some (fineAmount sub)) (Num 0);
                paymentYear = extractYearFromMonth nowYear (paymentMonth sub);
                st1 = st\<lparr>submissions := (submissions st)
                         [submissionId := sub\<lparr>status := Verified\<rparr>]\<rparr>;
                st2 = (case memberId sub of
                         None \<Rightarrow> st1
                       | Some mid \<Rightarrow>
                           (case getMember st mid of
                              None \<Rightarrow> st1
                            | Some m \<Rightarrow>
                                let newTotalSavings =
                                      js_add (orElse (Some (totalSavings m)) (Num 0)) amt;
                                    newTotalFines =
                                      js_add (orElse (Some (totalFines m)) (Num 0)) fine
                                in st1\<lparr>members := (members st1)
                                     [mid := m\<lparr>totalSavings := newTotalSavings,
                                               totalFines := newTotalFines,
                                               verifiedCount := verifiedCount m + 1,
                                               pendingCount := pendingCount m - 1,
                                               lastPaymentMonth := Some (paymentMonth sub),
                                               qualifiesForInterest :=
                                                 ge_undef newTotalSavings
                                                   (cfg ''interestEligibilityMin''),
                                               consecutiveMonths := consecutiveMonths m + 1\<rparr>]\<rparr>));
                st3 = (if js_lt (Num 0) fine
                       then st2\<lparr>interestPool := pool_add paymentYear fine 1 (interestPool st2)\<rparr>
                       else st2)
            in (Inr (), st3))"

definition rejectSubmission :: "nat \<Rightarrow> string \<Rightarrow> db \<Rightarrow> (error + unit) \<times> db" where
  \<comment> \<open>part_006, lines 927-1019. The member update is a plain \<open>batch.update\<close>: when the
      linked member document is missing the batch fails as a whole.\<close>
  "rejectSubmission submissionId reason st =
     (case getSubmission st submissionId of
        None \<Rightarrow> (Inl SubmissionNotFound, st)
      | Some sub \<Rightarrow>
          if status sub \<noteq> Pending then (Inl SubmissionAlreadyProcessed, st)
          else
            let st1 = st\<lparr>submissions := (submissions st)
                         [submissionId := sub\<lparr>status := Rejected,
                            rejectionReason :=
                              Some (if reason = [] then ''No reason provided'' else reason)\<rparr>]\<rparr>
            in case memberId sub of
                 None \<Rightarrow> (Inr (), st1)
               | Some mid \<Rightarrow>
                   (case getMember st mid of
                      None \<Rightarrow> (Inl NoDocumentToUpdate, st)
                    | Some m \<Rightarrow>
                        (Inr (), st1\<lparr>members := (members st1)
                           [mid := m\<lparr>pendingCount := pendingCount m - 1,
                                     rejectedCount := rejectedCount m + 1\<rparr>]\<rparr>)))"

section \<open>The single-store module (js/submit-pop.js)\<close>

record upd_pop_data =
  upop_name :: string
  upop_phone :: string
  upop_amount :: number
  upop_paymentDate :: int
  upop_paymentMonth :: string

text \<open>
  Here the caller passes a number for the amount (\<open>Number(submissionData.amount)\<close> is
  stored as it is; the form passes \<open>parseFloat\<close> of a field it has validated) and a date
  (\<open>upop_paymentDate\<close> is its day of the month). \<open>rnd\<close> is the six random characters of
  \<open>Utils.generateReference()\<close>. Each operation ends with its Firestore write or batch;
  the admin-action log entry and the SMS that follow the commit are not modelled.
\<close>

definition isPaymentLate :: "settings \<Rightarrow> int \<Rightarrow> bool" where
  \<comment> \<open>part_002, \<open>Utils.isPaymentLate\<close>:
      \<^verbatim>\<open>const lateDay = APP_SETTINGS?.lateDayOfMonth || 7; return date.getDate() > lateDay;\<close>\<close>
  "isPaymentLate cfg day = js_lt (orElse (cfg ''lateDayOfMonth'') (Num 7)) (whole day)"

definition upd_submitPOP ::
  "settings \<Rightarrow> string \<Rightarrow> upd_pop_data \<Rightarrow> db \<Rightarrow> (error + reference) \<times> db" where
  \<comment> \<open>js/submit-pop.js, lines 1214-1290: no check of the amount; the linked member's
      \<open>pendingCount\<close> is the only counter incremented.\<close>
  "upd_submitPOP cfg rnd submissionData st =
     (let normalizedPhone = normalizePhone (upop_phone submissionData);
          late = isPaymentLate cfg (upop_paymentDate submissionData);
          fine = (if late then orElse (cfg ''lateFineAmount'') (Num 50) else Num 0);
          member = getMemberByPhone st normalizedPhone;
          doc = \<lparr>reference = Random rnd, memberId = map_option fst member,
                 sub_name = trim (upop_name submissionData), sub_phone = normalizedPhone,
                 amount = upop_amount submissionData, fineAmount = fine,
                 paymentMonth = upop_paymentMonth submissionData, isLate = late,
                 status = Pending, rejectionReason = None\<rparr>;
          st1 = st\<lparr>submissions := submissions st @ [doc]\<rparr>
      in (Inr (Random rnd),
          case member of
            None \<Rightarrow> st1
          | Some (mid, m) \<Rightarrow>
              st1\<lparr>members := (members st1)[mid := m\<lparr>pendingCount := pendingCount m + 1\<rparr>]\<rparr>))"

definition upd_approveSubmission ::
  "settings \<Rightarrow> int \<Rightarrow> nat \<Rightarrow> nat option \<Rightarrow> db \<Rightarrow> (error + unit) \<times> db" where
  \<comment> \<open>js/submit-pop.js, lines 1425-1524, \<open>approveSubmission(submissionId, memberId = null)\<close>:
      the status is not read; the submission's \<open>memberId\<close> is overwritten with the
      argument; the member named by the argument is credited with increments. The batch
      fails as a whole when that member document is missing.\<close>
  "upd_approveSubmission cfg nowYear submissionId memberIdArg st =
     (case getSubmission st submissionId of
        None \<Rightarrow> (Inl SubmissionNotFound, st)
      | Some sub \<Rightarrow>
          let st1 = st\<lparr>submissions := (submissions st)
                       [submissionId := sub\<lparr>status := Verified, memberId := memberIdArg\<rparr>]\<rparr>;
              st3 = (if js_lt (Num 0) (fineAmount sub)
                     then st1\<lparr>interestPool :=
                            pool_add (upd_paymentYear nowYear (paymentMonth sub))
                              (fineAmount sub) 0 (interestPool st1)\<rparr>
                     else st1)
          in case memberIdArg of
               None \<Rightarrow> (Inr (), st3)
             | Some mid \<Rightarrow>
                 (case getMember st mid of
                    None \<Rightarrow> (Inl NoDocumentToUpdate, st)
                  | Some m \<Rightarrow>
                      let newTotalSavings =
                            js_add (orElse (Some (totalSavings m)) (Num 0)) (amount sub)
                      in (Inr (), st3\<lparr>members := (members st3)
                            [mid := m\<lparr>totalSavings := js_add (totalSavings m) (amount sub),
                                      totalFines := js_add (totalFines m)
                                        (orElse (Some (fineAmount sub)) (Num 0)),
                                      submissionCount := submissionCount m + 1,
                                      verifiedCount := verifiedCount m + 1,
                                      pendingCount := pendingCount m - 1,
                                      lastPaymentMonth := Some (paymentMonth sub),
                                      skippedMonths := 0,
                                      qualifiesForInterest :=
                                        js_le (orElse (cfg ''interestEligibilityMin'') (Num 10000))
                                          newTotalSavings\<rparr>]\<rparr>)))"

definition upd_rejectSubmission :: "nat \<Rightarrow> string \<Rightarrow> db \<Rightarrow> (error + unit) \<times> db" where
  \<comment> \<open>js/submit-pop.js, lines 1532-1587: the status is not read.\<close>
  "upd_rejectSubmission submissionId reason st =
     (case getSubmission st submissionId of
        None \<Rightarrow> (Inl SubmissionNotFound, st)
      | Some sub \<Rightarrow>
          let st1 = st\<lparr>submissions := (submissions st)
                       [submissionId := sub\<lparr>status := Rejected, rejectionReason := Some reason\<rparr>]\<rparr>
          in case memberId sub of
               None \<Rightarrow> (Inr (), st1)
             | Some mid \<Rightarrow>
                 (case getMember st mid of
                    None \<Rightarrow> (Inl NoDocumentToUpdate, st)
                  | Some m \<Rightarrow>
                      (Inr (), st1\<lparr>members := (members st1)
                         [mid := m\<lparr>pendingCount := pendingCount m - 1,
                                   rejectedCount := rejectedCount m + 1\<rparr>]\<rparr>)))"

subsection \<open>Recalculation\<close>

definition tally_step ::
  "submission \<Rightarrow> number \<times> number \<times> int \<times> int \<times> int \<Rightarrow>
     number \<times> number \<times> int \<times> int \<times> int" where
  \<comment> \<open>the body of \<open>submissions.docs.forEach\<close>; the accumulators are \<open>totalSavings\<close>,
      \<open>totalFines\<close>, \<open>verifiedCount\<close>, \<open>pendingCount\<close>, \<open>rejectedCount\<close>:
      \<^verbatim>\<open>totalSavings += data.amount || 0; totalFines += data.fineAmount || 0;\<close>\<close>
  "tally_step d acc =
     (case acc of (ts, tf, vc, pc, rc) \<Rightarrow>
        if status d = Verified
          then (js_add ts (orElse (Some (amount d)) (Num 0)),
                js_add tf (orElse (Some (fineAmount d)) (Num 0)), vc + 1, pc, rc)
        else if status d = Pending then (ts, tf, vc, pc + 1, rc)
        else if status d = Rejected then (ts, tf, vc, pc, rc + 1)
        else acc)"

definition memberSubmissions :: "db \<Rightarrow> nat \<Rightarrow> submission list" where
  \<comment> \<open>\<^verbatim>\<open>db.collection('submissions').where('memberId', '==', memberId).get()\<close>, in
      the order of the document ids\<close>
  "memberSubmissions st mid = filter (\<lambda>s. memberId s = Some mid) (submissions st)"

definition recalculateMemberStats :: "settings \<Rightarrow> nat \<Rightarrow> db \<Rightarrow> (error + stats) \<times> db" where
  \<comment> \<open>js/submit-pop.js, lines 1933-1990\<close>
  "recalculateMemberStats cfg mid st =
     (case getMember st mid of
        None \<Rightarrow> (Inl MemberNotFound, st)
      | Some m \<Rightarrow>
          let docs = memberSubmissions st mid in
          (case fold tally_step docs (Num 0, Num 0, 0, 0, 0) of (ts, tf, vc, pc, rc) \<Rightarrow>
             let q = js_le (orElse (cfg ''interestEligibilityMin'') (Num 10000)) ts;
                 result = \<lparr>totalSavings = ts, totalFines = tf,
                            submissionCount = int (length docs), verifiedCount = vc,
                            pendingCount = pc, rejectedCount = rc, qualifiesForInterest = q\<rparr>
             in (Inr result,
                 st\<lparr>members := (members st)
                   [mid := m\<lparr>totalSavings := ts, totalFines := tf,
                             submissionCount := int (length docs), verifiedCount := vc,
                             pendingCount := pc, rejectedCount := rc,
                             qualifiesForInterest := q\<rparr>]\<rparr>)))"

definition getMembers :: "db \<Rightarrow> (nat \<times> member) list" where
  \<comment> \<open>js/submit-pop.js: \<^verbatim>\<open>db.collection('members').orderBy('name').get()\<close>\<close>
  "getMembers st = sort_key (\<lambda>im. name (snd im)) (enumerate 0 (members st))"

fun recalc_loop :: "settings \<Rightarrow> nat list \<Rightarrow> int \<Rightarrow> db \<Rightarrow> (error + int) \<times> db" where
  \<comment> \<open>\<^verbatim>\<open>for (const member of members) {
          await this.recalculateMemberStats(member.id); count++; }\<close>
      with no \<open>try\<close> inside the loop: an exception leaves the loop\<close>
  "recalc_loop cfg [] count st = (Inr count, st)"
| "recalc_loop cfg (mid # rest) count st =
     (case recalculateMemberStats cfg mid st of
        (Inl e, st') \<Rightarrow> (Inl e, st')
      | (Inr r, st') \<Rightarrow> recalc_loop cfg rest (count + 1) st')"

definition recalculateAllMemberStats :: "settings \<Rightarrow> db \<Rightarrow> (error + int) \<times> db" where
  \<comment> \<open>js/submit-pop.js, lines 1998-2017; the enclosing \<open>catch\<close> logs and rethrows\<close>
  "recalculateAllMemberStats cfg st = recalc_loop cfg (map fst (getMembers st)) 0 st"

subsection \<open>The amount check of the submission form\<close>

datatype amount_verdict = AmountMissing | AmountNotPositive | AmountAccepted bool

definition validateAmount :: "settings \<Rightarrow> number \<Rightarrow> amount_verdict" where
  \<comment> \<open>js/submit-pop.js, \<open>validateForm\<close>, lines 520-537. The argument is
      \<open>parseFloat(amountInput.value)\<close> (\<open>NaN\<close> for an empty field too).
      \<open>AmountMissing\<close> and \<open>AmountNotPositive\<close> set \<open>isValid = false\<close>, and \<open>handleSubmit\<close>
      then returns before \<open>Database.submitPOP\<close>; \<open>AmountAccepted w\<close> leaves \<open>isValid\<close>
      alone and shows the minimum-deposit note when \<open>w\<close>.\<close>
  "validateAmount cfg amt =
     (if amt = NaN then AmountMissing
      else if js_le amt (Num 0) then AmountNotPositive
      else AmountAccepted (js_lt amt (orElse (cfg ''minMonthlyDeposit'') (Num 300))))"

section \<open>One-time passwords\<close>

record otp_record =
  otp :: string
  expiresAt :: int
  used :: bool
  attempts :: int

type_synonym otp_store = "string \<Rightarrow> otp_record option"

text \<open>
  The collection \<open>otpCodes\<close> is keyed by the formatted phone number. Times are
  milliseconds; \<open>now\<close> is the clock at the call. \<open>code\<close> is the code \<open>generateOTP(6)\<close>
  drew and \<open>delivered\<close> the \<open>success\<close> flag of the SMS send. A record written by
  js/sms.js has no \<open>attempts\<close> field, shown as \<open>0\<close>.
\<close>

definition formatPhoneNumber :: "string \<Rightarrow> string option" where
  \<comment> \<open>part_001, lines 402-423\<close>
  "formatPhoneNumber ph =
     (if ph = [] then None
      else let cleaned = filter is_digit ph in
        if take 2 cleaned = ''27'' \<and> length cleaned = 11 then Some cleaned
        else if take 1 cleaned = ''0'' \<and> length cleaned = 10 then Some (''27'' @ drop 1 cleaned)
        else if length cleaned = 9 \<and> take 1 cleaned \<noteq> ''0'' then Some (''27'' @ cleaned)
        else None)"

definition sendPasswordResetOTP ::
  "int \<Rightarrow> string \<Rightarrow> bool \<Rightarrow> string \<Rightarrow> otp_store \<Rightarrow> bool \<times> otp_store" where
  \<comment> \<open>part_001, lines 589-630: the record is stored first and deleted again when the
      SMS fails\<close>
  "sendPasswordResetOTP now code delivered ph store =
     (case formatPhoneNumber ph of
        None \<Rightarrow> (False, store)
      | Some key \<Rightarrow>
          let store1 = store(key \<mapsto> \<lparr>otp = code, expiresAt = now + 10 * 60 * 1000,
                                      used = False, attempts = 0\<rparr>)
          in if delivered then (True, store1) else (False, store1(key := None)))"

definition verifyOTP :: "int \<Rightarrow> string \<Rightarrow> string \<Rightarrow> otp_store \<Rightarrow> bool \<times> otp_store" where
  \<comment> \<open>part_001, lines 638-704\<close>
  "verifyOTP now ph code store =
     (case formatPhoneNumber ph of
        None \<Rightarrow> (False, store)
      | Some key \<Rightarrow>
          (case store key of
             None \<Rightarrow> (False, store)
           | Some d \<Rightarrow>
               if used d then (False, store)
               else if now > expiresAt d then (False, store(key := None))
               else if attempts d \<ge> 3 then (False, store(key := None))
               else if otp d \<noteq> code
                 then (False, store(key \<mapsto> d\<lparr>attempts := attempts d + 1\<rparr>))
               else (True, store(key \<mapsto> d\<lparr>used := True\<rparr>))))"

definition mp_formatPhoneNumber :: "string \<Rightarrow> string" where
  \<comment> \<open>js/sms.js, lines 148-171\<close>
  "mp_formatPhoneNumber ph =
     (let cleaned0 = filter (\<lambda>c. is_digit c \<or> c = CHR ''+'') ph;
          hasPlus = (take 1 cleaned0 = ''+'');
          cleaned = (if hasPlus then drop 1 cleaned0 else cleaned0)
      in if take 2 cleaned = ''27'' \<and> length cleaned = 11 then ''+'' @ cleaned
         else if take 1 cleaned = ''0'' \<and> length cleaned = 10 then ''+27'' @ drop 1 cleaned
         else if length cleaned = 9 \<and> (take 1 cleaned = ''6'' \<or> take 1 cleaned = ''7'' \<or> take 1 cleaned = ''8'')
           then ''+27'' @ cleaned
         else if hasPlus then ''+'' @ cleaned else ''+27'' @ cleaned)"

definition mp_sendPasswordResetOTP ::
  "int \<Rightarrow> string \<Rightarrow> bool \<Rightarrow> string \<Rightarrow> otp_store \<Rightarrow> bool \<times> otp_store" where
  \<comment> \<open>js/sms.js, lines 490-509: the record is stored only after a successful send\<close>
  "mp_sendPasswordResetOTP now code delivered ph store =
     (if delivered
      then (True, store(mp_formatPhoneNumber ph \<mapsto>
              \<lparr>otp = code, expiresAt = now + 10 * 60 * 1000, used = False, attempts = 0\<rparr>))
      else (False, store))"

definition mp_verifyOTP :: "int \<Rightarrow> string \<Rightarrow> string \<Rightarrow> otp_store \<Rightarrow> bool \<times> otp_store" where
  \<comment> \<open>js/sms.js, lines 517-541:
      \<^verbatim>\<open>const isValid = data.otp === otp && !data.used && data.expiresAt.toDate() > new Date();\<close>\<close>
  "mp_verifyOTP now ph code store =
     (let key = mp_formatPhoneNumber ph in
      case store key of
        None \<Rightarrow> (False, store)
      | Some d \<Rightarrow>
          let isValid = (otp d = code \<and> \<not> used d \<and> expiresAt d > now)
          in if isValid then (True, store(key \<mapsto> d\<lparr>used := True\<rparr>)) else (False, store))"

section \<open>Sequences of operations and the ledger invariants\<close>

datatype op =
    Register member_data
  | Submit int pop_data
  | Approve int nat
  | Reject nat string
  | Recalculate nat

definition step :: "(string \<Rightarrow> string) \<Rightarrow> settings \<Rightarrow> op \<Rightarrow> db \<Rightarrow> db" where
  \<comment> \<open>the store one operation leaves behind, whether it returns or throws: the
      operations of the dual-store module and the recalculation\<close>
  "step D cfg x st =
     (case x of
        Register memberData \<Rightarrow> snd (registerMember D memberData st)
      | Submit today submissionData \<Rightarrow> snd (submitPOP cfg today submissionData st)
      | Approve nowYear submissionId \<Rightarrow> snd (approveSubmission cfg nowYear submissionId st)
      | Reject submissionId reason \<Rightarrow> snd (rejectSubmission submissionId reason st)
      | Recalculate mid \<Rightarrow> snd (recalculateMemberStats cfg mid st))"

definition run :: "(string \<Rightarrow> string) \<Rightarrow> settings \<Rightarrow> op list \<Rightarrow> db \<Rightarrow> db" where
  "run D cfg ops st = fold (step D cfg) ops st"

definition verifiedOf :: "db \<Rightarrow> nat \<Rightarrow> submission list" where
  \<comment> \<open>the verified submissions linked to member \<open>mid\<close>\<close>
  "verifiedOf st mid = filter (\<lambda>s. status s = Verified) (memberSubmissions st mid)"

fun exact_add :: "number \<Rightarrow> number \<Rightarrow> number" where
  \<comment> \<open>the sum of two numbers with no rounding\<close>
  "exact_add (Num a) (Num b) = Num (a + b)"
| "exact_add x y = js_add x y"

definition exact_sum :: "number list \<Rightarrow> number" where
  \<comment> \<open>the specification's \<open>\<Sigma>\<close>: the mathematical sum of the values\<close>
  "exact_sum xs = foldl exact_add (Num 0) xs"

definition savings_ok :: "db \<Rightarrow> nat \<Rightarrow> bool" where
  "savings_ok st mid =
     (totalSavings (members st ! mid) = exact_sum (map amount (verifiedOf st mid)) \<and>
      totalFines (members st ! mid) = exact_sum (map fineAmount (verifiedOf st mid)))"

definition is_whole :: "number \<Rightarrow> bool" where
  \<comment> \<open>a finite number with an integer value\<close>
  "is_whole x = (case x of Num q \<Rightarrow> q = of_int \<lfloor>q\<rfloor> | _ \<Rightarrow> False)"

definition magnitude :: "number \<Rightarrow> rat" where
  "magnitude x = (case x of Num q \<Rightarrow> \<bar>q\<bar> | _ \<Rightarrow> 0)"

definition int_of :: "number \<Rightarrow> int" where
  \<comment> \<open>the value of a whole number\<close>
  "int_of x = (case x of Num q \<Rightarrow> \<lfloor>q\<rfloor> | _ \<Rightarrow> 0)"

definition exact_range :: "submission list \<Rightarrow> bool" where
  \<comment> \<open>the amounts and the fines are whole numbers, and the absolute values of the
      amounts, and of the fines, add up to \<open>2^53\<close> at most: on such documents no sum the
      code forms is rounded\<close>
  "exact_range docs =
     (list_all (\<lambda>s. is_whole (amount s) \<and> is_whole (fineAmount s)) docs \<and>
      sum_list (map (\<lambda>s. magnitude (amount s)) docs) \<le> 2 ^ 53 \<and>
      sum_list (map (\<lambda>s. magnitude (fineAmount s)) docs) \<le> 2 ^ 53)"

definition counts_ok :: "db \<Rightarrow> nat \<Rightarrow> bool" where
  "counts_ok st mid =
     (submissionCount (members st ! mid) =
        verifiedCount (members st ! mid) + pendingCount (members st ! mid)
          + rejectedCount (members st ! mid))"

definition links_ok :: "db \<Rightarrow> bool" where
  \<comment> \<open>every link of a submission names a member document\<close>
  "links_ok st = list_all (\<lambda>s. case memberId s of None \<Rightarrow> True
                                  | Some mid \<Rightarrow> mid < length (members st)) (submissions st)"

definition ledger_ok :: "db \<Rightarrow> bool" where
  "ledger_ok st = (links_ok st \<and> list_all (savings_ok st) [0..<length (members st)])"

definition all_counts_ok :: "db \<Rightarrow> bool" where
  "all_counts_ok st = list_all (counts_ok st) [0..<length (members st)]"

subsection \<open>Stores and inputs used in the worked examples\<close>

definition thabo :: member where
  "thabo = new_member ''Thabo'' ''8001015009087'' ''0821234567'' ''00'' (Random ''K7P2'')"

definition one_member_db :: db where
  \<comment> \<open>the store after one registration: a member with all aggregates zero\<close>
  "one_member_db = empty_db\<lparr>members := [thabo]\<rparr>"

definition pop300 :: upd_pop_data where
  \<comment> \<open>R300 paid on the 5th for December 2024, from Thabo's phone\<close>
  "pop300 = \<lparr>upop_name = ''Thabo'', upop_phone = ''082 123 4567'', upop_amount = Num 300,
             upop_paymentDate = 5, upop_paymentMonth = ''December 2024''\<rparr>"

definition pop_late :: "string \<Rightarrow> upd_pop_data" where
  \<comment> \<open>R300 paid on the 10th, after the deadline day, for the given label\<close>
  "pop_late label = \<lparr>upop_name = ''Thabo'', upop_phone = ''082 123 4567'', upop_amount = Num 300,
             upop_paymentDate = 10, upop_paymentMonth = label\<rparr>"

definition pop_of :: "number \<Rightarrow> pop_data" where
  \<comment> \<open>a submission of the given parsed amount, paid on the 5th\<close>
  "pop_of amt = \<lparr>pop_name = ''Thabo'', pop_phone = ''082 123 4567'', pop_amount = amt,
                 pop_paymentDate = Some 5, pop_paymentMonth = ''December 2024''\<rparr>"

subsection \<open>Recalculation as the specification words it\<close>

definition js_sum :: "number list \<Rightarrow> number" where
  \<comment> \<open>the sum the program forms: from zero, left to right, each partial sum rounded to
      a double\<close>
  "js_sum xs = foldl js_add (Num 0) xs"

definition counted :: "number \<Rightarrow> number" where
  \<comment> \<open>\<^verbatim>\<open>x || 0\<close>: a stored \<open>NaN\<close> counts as zero\<close>
  "counted x = orElse (Some x) (Num 0)"

definition recalculated :: "settings \<Rightarrow> db \<Rightarrow> nat \<Rightarrow> stats" where
  \<comment> \<open>the specification's \<open>RecalculatedStats\<close>: sums over the member's verified
      submissions (in the program's arithmetic), one count per status, the number of
      submissions examined, and the eligibility flag from the fresh total\<close>
  "recalculated cfg st mid =
     (let docs = memberSubmissions st mid;
          ver = filter (\<lambda>s. status s = Verified) docs
      in \<lparr>totalSavings = js_sum (map (\<lambda>s. counted (amount s)) ver),
          totalFines = js_sum (map (\<lambda>s. counted (fineAmount s)) ver),
          submissionCount = int (length docs),
          verifiedCount = int (length ver),
          pendingCount = int (length (filter (\<lambda>s. status s = Pending) docs)),
          rejectedCount = int (length (filter (\<lambda>s. status s = Rejected) docs)),
          qualifiesForInterest =
            js_le (orElse (cfg ''interestEligibilityMin'') (Num 10000))
              (js_sum (map (\<lambda>s. counted (amount s)) ver))\<rparr>)"

definition overwrite :: "stats \<Rightarrow> member \<Rightarrow> member" where
  \<comment> \<open>the member document with its seven aggregate fields replaced\<close>
  "overwrite r m = m\<lparr>totalSavings := totalSavings r, totalFines := totalFines r,
     submissionCount := submissionCount r, verifiedCount := verifiedCount r,
     pendingCount := pendingCount r, rejectedCount := rejectedCount r,
     qualifiesForInterest := qualifiesForInterest r\<rparr>"

definition drifted_db :: db where
  \<comment> \<open>one member whose cached aggregates are wrong, with a verified late payment, a
      pending and a rejected submission, and a verified guest submission\<close>
  "drifted_db = empty_db
     \<lparr>members := [thabo\<lparr>totalSavings := Num 999, pendingCount := 7\<rparr>],
      submissions :=
        [\<lparr>reference = Random ''AAAAAA'', memberId = Some 0, sub_name = ''Thabo'',
          sub_phone = ''0821234567'', amount = Num 300, fineAmount = Num 50,
          paymentMonth = ''December 2024'', isLate = True, status = Verified,
          rejectionReason = None\<rparr>,
         \<lparr>reference = Random ''BBBBBB'', memberId = Some 0, sub_name = ''Thabo'',
          sub_phone = ''0821234567'', amount = Num 400, fineAmount = Num 0,
          paymentMonth = ''January 2025'', isLate = False, status = Pending,
          rejectionReason = None\<rparr>,
         \<lparr>reference = Random ''CCCCCC'', memberId = Some 0, sub_name = ''Thabo'',
          sub_phone = ''0821234567'', amount = Num 100, fineAmount = Num 0,
          paymentMonth = ''February 2025'', isLate = False, status = Rejected,
          rejectionReason = Some ''unreadable''\<rparr>,
         \<lparr>reference = Random ''DDDDDD'', memberId = None, sub_name = ''Guest'',
          sub_phone = ''0830000000'', amount = Num 500, fineAmount = Num 0,
          paymentMonth = ''February 2025'', isLate = False, status = Verified,
          rejectionReason = None\<rparr>]\<rparr>"

definition recalc_members :: "settings \<Rightarrow> db \<Rightarrow> nat list \<Rightarrow> member list" where
  \<comment> \<open>the member documents of \<open>st\<close> with those named in \<open>ids\<close> overwritten by their
      recalculated statistics\<close>
  "recalc_members cfg st ids =
     map (\<lambda>im. if fst im \<in> set ids then overwrite (recalculated cfg st (fst im)) (snd im)
                else snd im)
         (enumerate 0 (members st))"

definition two_drifted_db :: db where
  \<comment> \<open>\<open>drifted_db\<close> with a second member, Zanele, whose cached total is wrong too\<close>
  "two_drifted_db = drifted_db
     \<lparr>members := members drifted_db @
        [(new_member ''Zanele'' ''9002025009086'' ''0731234567'' ''00'' (Random ''Z9Z9''))
           \<lparr>totalSavings := Num 555\<rparr>]\<rparr>"

definition two_payments_db :: "number \<Rightarrow> number \<Rightarrow> db" where
  \<comment> \<open>Thabo with two verified submissions of the given amounts and no fine\<close>
  "two_payments_db a b = empty_db
     \<lparr>members := [thabo],
      submissions :=
        [\<lparr>reference = Random ''AAAAAA'', memberId = Some 0, sub_name = ''Thabo'',
          sub_phone = ''0821234567'', amount = a, fineAmount = Num 0,
          paymentMonth = ''December 2024'', isLate = False, status = Verified,
          rejectionReason = None\<rparr>,
         \<lparr>reference = Random ''BBBBBB'', memberId = Some 0, sub_name = ''Thabo'',
          sub_phone = ''0821234567'', amount = b, fineAmount = Num 0,
          paymentMonth = ''January 2025'', isLate = False, status = Verified,
          rejectionReason = None\<rparr>]\<rparr>"

definition toy_digest :: "string \<Rightarrow> string" where
  \<comment> \<open>a one-byte checksum standing in for SHA-256 in the worked examples; every
      theorem below holds for an arbitrary digest \<open>D\<close>\<close>
  "toy_digest bytes = [char_of (sum_list (map of_char bytes) :: nat)]"

definition thabo_data :: member_data where
  "thabo_data = \<lparr>reg_name = '' Thabo '', reg_idNumber = ''8001015009087'',
                  reg_phone = ''082 123-4567'', reg_password = ''secret''\<rparr>"

definition zanele_data :: member_data where
  "zanele_data = \<lparr>reg_name = ''Zanele'', reg_idNumber = ''9002025009086'',
                   reg_phone = ''0731234567'', reg_password = ''secret''\<rparr>"

subsection \<open>Notions the claims about the interest pool use\<close>

definition four_digit_run_at :: "string \<Rightarrow> nat \<Rightarrow> bool" where
  \<comment> \<open>a four-digit token of the label starts at position \<open>k\<close>\<close>
  "four_digit_run_at s k = (k + 4 \<le> length s \<and> list_all is_digit (take 4 (drop k s)))"

definition decimal4 :: "string \<Rightarrow> int" where
  \<comment> \<open>the number a four-digit token denotes\<close>
  "decimal4 tok = 1000 * digit_val (tok ! 0) + 100 * digit_val (tok ! 1)
                  + 10 * digit_val (tok ! 2) + digit_val (tok ! 3)"

definition poolFines :: "(number \<Rightarrow> pool_entry option) \<Rightarrow> number \<Rightarrow> number" where
  \<comment> \<open>the fines collected in a bucket, zero for a bucket that does not exist (as
      \<open>getInterestPool\<close> reads it)\<close>
  "poolFines pool y = (case pool y of None \<Rightarrow> Num 0 | Some e \<Rightarrow> poolTotalFines e)"

definition no_four_digit_run :: "string \<Rightarrow> bool" where
  \<comment> \<open>the label holds no four-digit token\<close>
  "no_four_digit_run s = list_all (\<lambda>j. \<not> four_digit_run_at s j) [0..<length s]"

definition leftmost_run :: "string \<Rightarrow> nat \<Rightarrow> bool" where
  \<comment> \<open>the first four-digit token of the label starts at position \<open>k\<close>\<close>
  "leftmost_run s k =
     (four_digit_run_at s k \<and> list_all (\<lambda>j. \<not> four_digit_run_at s j) [0..<k])"

definition pop_late_dual :: "string \<Rightarrow> pop_data" where
  \<comment> \<open>R300 paid on the 10th for the given label, as the dual-store module receives it\<close>
  "pop_late_dual label = \<lparr>pop_name = ''Thabo'', pop_phone = ''082 123 4567'',
     pop_amount = Num 300, pop_paymentDate = Some 10, pop_paymentMonth = label\<rparr>"

definition late_dual_db :: db where
  \<comment> \<open>Thabo's late payment for December 2024, submitted to the dual-store module with
      the settings of \<open>DB_SETTINGS\<close>\<close>
  "late_dual_db = snd (submitPOP db_settings 3 (pop_late_dual ''December 2024'') one_member_db)"

definition late_label_db :: "string \<Rightarrow> db" where
  \<comment> \<open>Thabo's late payment with the given label, submitted to the single-store module\<close>
  "late_label_db label =
     snd (upd_submitPOP repo_settings ''ABCDEF'' (pop_late label) one_member_db)"

definition pending_db :: db where
  \<comment> \<open>Thabo's R300 submission, made through the single-store module, still pending\<close>
  "pending_db = snd (upd_submitPOP repo_settings ''ABCDEF'' pop300 one_member_db)"

definition approved_once_db :: db where
  \<comment> \<open>the same submission approved once by the single-store module\<close>
  "approved_once_db = snd (upd_approveSubmission repo_settings 2026 0 (Some 0) pending_db)"

definition issued_store :: otp_store where
  \<comment> \<open>the code 123456 issued at time 0 by the multi-provider module\<close>
  "issued_store =
     snd (mp_sendPasswordResetOTP 0 ''123456'' True ''0821234567'' (\<lambda>_. None))"

definition fresh_store :: otp_store where
  \<comment> \<open>the code 123456 issued at time 0 by the module of part_001\<close>
  "fresh_store = snd (sendPasswordResetOTP 0 ''123456'' True ''0821234567'' (\<lambda>_. None))"

definition used_store :: otp_store where
  \<comment> \<open>the same record after the right code was verified at time 1000\<close>
  "used_store = snd (verifyOTP 1000 ''0821234567'' ''123456'' fresh_store)"

definition tried3_store :: otp_store where
  \<comment> \<open>the issued record after three wrong codes\<close>
  "tried3_store =
     snd (verifyOTP 3000 ''0821234567'' ''222222''
       (snd (verifyOTP 2000 ''0821234567'' ''111111''
         (snd (verifyOTP 1000 ''0821234567'' ''000000'' fresh_store)))))"

subsection \<open>Notions the claim about credentials uses\<close>

fun unhex :: "string \<Rightarrow> string" where
  \<comment> \<open>the bytes a string of hexadecimal digit pairs denotes\<close>
  "unhex (h # l # rest) =
     (case (hex_val h, hex_val l) of
        (Some a, Some b) \<Rightarrow> char_of (nat (16 * a + b)) # unhex rest
      | _ \<Rightarrow> [])"
| "unhex _ = []"

definition is_ascii :: "string \<Rightarrow> bool" where
  "is_ascii s = list_all (\<lambda>c. (of_char c :: nat) < 128) s"

definition lower_hex :: "string \<Rightarrow> bool" where
  \<comment> \<open>only the digits \<open>0-9\<close> and \<open>a-f\<close>\<close>
  "lower_hex s = list_all (\<lambda>c. let n = (of_char c :: nat) in
       (48 \<le> n \<and> n \<le> 57) \<or> (97 \<le> n \<and> n \<le> 102)) s"

section \<open>Arithmetic on numbers\<close>

lemma round_half_even_int [simp]: "round_half_even (of_int n) = n"
  by (simp add: round_half_even_def)

lemma floor_log2_int:
  assumes "0 < z"
  shows "floor_log2 (of_int z) = bitlen z - 1"
proof -
  from bitlen_bounds [OF assms] have b: "2 ^ nat (bitlen z - 1) \<le> z" by simp
  from assms have "1 \<le> bitlen z"
    using bitlen_eq_zero_iff [of z] bitlen_nonneg [of z] by linarith
  then have "pow2 (bitlen z - 1) = 2 ^ nat (bitlen z - 1)"
    by (simp add: pow2_def)
  also have "\<dots> = of_int (2 ^ nat (bitlen z - 1))" by simp
  also have "\<dots> \<le> of_int z" using b by (simp only: of_int_le_iff)
  finally have "pow2 (bitlen z - 1) \<le> of_int z" .
  moreover have "bitlen 1 = 1" by (simp add: bitlen_alt_def)
  ultimately show ?thesis
    by (simp add: floor_log2_def Let_def)
qed

lemma round_pos_int:
  assumes "0 < z" "z \<le> 2 ^ 53"
  shows "round_pos (of_int z) = Num (of_int z)"
proof -
  define k where "k = bitlen z - 1"
  from bitlen_bounds [OF assms(1)] have b: "2 ^ nat k \<le> z" "z < 2 ^ nat (k + 1)"
    by (simp_all add: k_def)
  from assms(1) have k0: "0 \<le> k"
    using bitlen_eq_zero_iff [of z] bitlen_nonneg [of z] unfolding k_def by linarith
  have k53: "k \<le> 53"
  proof (rule ccontr)
    assume "\<not> k \<le> 53"
    then have "54 \<le> nat k" by simp
    then have "(2::int) ^ 54 \<le> 2 ^ nat k" by (intro power_increasing) simp_all
    with b(1) assms(2) show False by simp
  qed
  have e: "floor_log2 (of_int z) = k"
    by (simp add: floor_log2_int [OF assms(1)] k_def)
  have m: "max k (- 1022) = k"
    using k0 by simp
  show ?thesis
  proof (cases "k \<le> 52")
    case True
    then have u: "pow2 (k - 52) = 1 / 2 ^ nat (52 - k)"
      by (cases "k = 52") (simp_all add: pow2_def)
    have "of_int z / pow2 (k - 52) = (of_int (z * 2 ^ nat (52 - k)) :: rat)"
      by (simp add: u)
    then have "round_half_even (of_int z / pow2 (k - 52)) = z * 2 ^ nat (52 - k)"
      by (simp only: round_half_even_int)
    then have "of_int (round_half_even (of_int z / pow2 (k - 52))) * pow2 (k - 52) = (of_int z :: rat)"
      by (simp add: u)
    with True show ?thesis
      by (simp add: round_pos_def e m Let_def del: of_int_mult)
  next
    case False
    with k53 have k: "k = 53" by simp
    with b(1) assms(2) have z: "z = 2 ^ 53" by simp
    have u: "pow2 (k - 52) = 2" by (simp add: k pow2_def)
    have "of_int z / pow2 (k - 52) = (of_int (2 ^ 52) :: rat)"
      by (simp add: u z)
    then have "round_half_even (of_int z / pow2 (k - 52)) = 2 ^ 52"
      by (simp only: round_half_even_int)
    then have "of_int (round_half_even (of_int z / pow2 (k - 52))) * pow2 (k - 52) = (of_int z :: rat)"
      by (simp add: u z)
    with k show ?thesis
      by (simp add: round_pos_def e m Let_def del: of_int_mult)
  qed
qed

text \<open>An integer of absolute value up to \<open>2^53\<close> is a double: rounding leaves it alone.\<close>

lemma to_double_int:
  assumes "\<bar>z\<bar> \<le> 2 ^ 53"
  shows "to_double (of_int z) = whole z"
proof -
  consider "z = 0" | "0 < z" | "z < 0" by linarith
  then show ?thesis
  proof cases
    case 1
    then show ?thesis by (simp add: to_double_def whole_def)
  next
    case 2
    with assms round_pos_int [of z] show ?thesis by (simp add: to_double_def whole_def)
  next
    case 3
    with assms round_pos_int [of "- z"] show ?thesis by (simp add: to_double_def whole_def)
  qed
qed

lemma js_add_whole:
  "\<bar>a + b\<bar> \<le> 2 ^ 53 \<Longrightarrow> js_add (whole a) (whole b) = whole (a + b)"
  using to_double_int [of "a + b"] by (simp add: whole_def)

lemma exact_add_whole: "exact_add (whole a) (whole b) = whole (a + b)"
  by (simp add: whole_def)

lemma is_whole_iff: "is_whole x \<longleftrightarrow> (\<exists>k. x = whole k)"
proof
  assume "is_whole x"
  then obtain q where "x = Num q" "q = of_int \<lfloor>q\<rfloor>"
    by (cases x) (simp_all add: is_whole_def)
  then have "x = whole \<lfloor>q\<rfloor>" by (simp add: whole_def)
  then show "\<exists>k. x = whole k" ..
next
  assume "\<exists>k. x = whole k"
  then show "is_whole x" by (auto simp: is_whole_def whole_def)
qed

lemma magnitude_whole [simp]: "magnitude (whole k) = of_int \<bar>k\<bar>"
  by (simp add: magnitude_def whole_def)

lemma counted_whole [simp]: "counted (whole k) = whole k"
  by (simp add: counted_def whole_def)

lemma magnitude_nonneg [simp]: "0 \<le> magnitude x"
  by (cases x) (simp_all add: magnitude_def)

text \<open>
  On whole numbers whose absolute values add up to \<open>2^53\<close> at most, no partial sum is
  rounded: the sum the program forms is the mathematical sum.
\<close>

lemma foldl_js_add_whole:
  "of_int \<bar>acc\<bar> + sum_list (map magnitude xs) \<le> 2 ^ 53 \<Longrightarrow> list_all is_whole xs \<Longrightarrow>
   foldl js_add (whole acc) (map counted xs) = foldl exact_add (whole acc) xs"
proof (induction xs arbitrary: acc)
  case Nil
  show ?case by simp
next
  case (Cons x xs)
  from Cons.prems(2) obtain k where x: "x = whole k"
    by (auto simp: is_whole_iff)
  from Cons.prems(1) x have b: "of_int \<bar>acc\<bar> + of_int \<bar>k\<bar> + sum_list (map magnitude xs) \<le> (2 ^ 53 :: rat)"
    by (simp add: add.assoc)
  have nn: "0 \<le> sum_list (map magnitude xs)"
    by (rule sum_list_nonneg) auto
  from b nn have "(of_int (\<bar>acc\<bar> + \<bar>k\<bar>) :: rat) \<le> of_int (2 ^ 53)"
    by simp
  then have "\<bar>acc\<bar> + \<bar>k\<bar> \<le> 2 ^ 53"
    by (simp only: of_int_le_iff)
  then have small: "\<bar>acc + k\<bar> \<le> 2 ^ 53" by linarith
  have "of_int \<bar>acc + k\<bar> \<le> (of_int \<bar>acc\<bar> + of_int \<bar>k\<bar> :: rat)"
    by (metis abs_triangle_ineq of_int_add of_int_le_iff)
  with b have "of_int \<bar>acc + k\<bar> + sum_list (map magnitude xs) \<le> (2 ^ 53 :: rat)"
    by linarith
  from Cons.IH [OF this] Cons.prems(2)
  have "foldl js_add (whole (acc + k)) (map counted xs) = foldl exact_add (whole (acc + k)) xs"
    by simp
  with x small show ?case
    by (simp add: js_add_whole exact_add_whole)
qed

lemma js_sum_exact:
  assumes "list_all is_whole xs" "sum_list (map magnitude xs) \<le> 2 ^ 53"
  shows "js_sum (map counted xs) = exact_sum xs"
  using foldl_js_add_whole [of 0 xs] assms
  by (simp add: js_sum_def exact_sum_def whole_def)

section \<open>Recalculation of one member\<close>

lemma fold_tally_step:
  "fold tally_step docs (a, b, c, d, e) =
     (foldl js_add a (map (\<lambda>s. counted (amount s)) (filter (\<lambda>s. status s = Verified) docs)),
      foldl js_add b (map (\<lambda>s. counted (fineAmount s)) (filter (\<lambda>s. status s = Verified) docs)),
      c + int (length (filter (\<lambda>s. status s = Verified) docs)),
      d + int (length (filter (\<lambda>s. status s = Pending) docs)),
      e + int (length (filter (\<lambda>s. status s = Rejected) docs)))"
  by (induction docs arbitrary: a b c d e) (auto simp: tally_step_def counted_def)

lemma recalculate_eq:
  assumes "getMember st mid = Some m"
  shows "recalculateMemberStats cfg mid st =
           (Inr (recalculated cfg st mid),
            st\<lparr>members := (members st)[mid := overwrite (recalculated cfg st mid) m]\<rparr>)"
  using assms
  by (simp add: recalculateMemberStats_def fold_tally_step recalculated_def overwrite_def Let_def
      js_sum_def)

lemma recalculate_missing:
  "getMember st mid = None \<Longrightarrow> recalculateMemberStats cfg mid st = (Inl MemberNotFound, st)"
  by (simp add: recalculateMemberStats_def)

lemma memberSubmissions_members_upd [simp]:
  "memberSubmissions (st\<lparr>members := ms\<rparr>) mid = memberSubmissions st mid"
  by (simp add: memberSubmissions_def)

lemma recalculated_members_upd [simp]:
  "recalculated cfg (st\<lparr>members := ms\<rparr>) mid = recalculated cfg st mid"
  by (simp add: recalculated_def)

lemma overwrite_idem [simp]: "overwrite r (overwrite r m) = overwrite r m"
  by (simp add: overwrite_def)

lemma exact_range_amounts:
  assumes "exact_range docs"
  shows "js_sum (map (\<lambda>s. counted (amount s)) docs) = exact_sum (map amount docs)"
    and "js_sum (map (\<lambda>s. counted (fineAmount s)) docs) = exact_sum (map fineAmount docs)"
proof -
  from assms have a: "list_all is_whole (map amount docs)"
      "sum_list (map magnitude (map amount docs)) \<le> 2 ^ 53"
    and f: "list_all is_whole (map fineAmount docs)"
      "sum_list (map magnitude (map fineAmount docs)) \<le> 2 ^ 53"
    by (simp_all add: exact_range_def list_all_iff comp_def)
  from js_sum_exact [OF a] show "js_sum (map (\<lambda>s. counted (amount s)) docs) = exact_sum (map amount docs)"
    by (simp add: comp_def)
  from js_sum_exact [OF f]
  show "js_sum (map (\<lambda>s. counted (fineAmount s)) docs) = exact_sum (map fineAmount docs)"
    by (simp add: comp_def)
qed

lemma recalculated_exact:
  assumes "exact_range (verifiedOf st mid)"
  shows "totalSavings (recalculated cfg st mid) = exact_sum (map amount (verifiedOf st mid))
       \<and> totalFines (recalculated cfg st mid) = exact_sum (map fineAmount (verifiedOf st mid))"
  using exact_range_amounts [OF assms]
  by (simp add: recalculated_def verifiedOf_def Let_def)

text \<open>
  C5, as the code has it. For a member that exists, \<open>recalculateMemberStats\<close> returns
  the statistics \<open>recalculated\<close> describes: the sums over the member's verified
  submissions of \<^verbatim>\<open>amount || 0\<close> and \<^verbatim>\<open>fineAmount || 0\<close>, added from zero in the order
  of the query, each partial sum rounded to a double; a count per status; the number
  of submissions examined; eligibility from the fresh total. It leaves the store with
  exactly the member's seven aggregate fields overwritten by them; run again on the
  store it left, it returns the same statistics and leaves the same store. When the
  verified amounts and fines are whole numbers whose absolute values add up to \<open>2^53\<close>
  at most, the totals are the mathematical sums of the amounts and of the fines.
\<close>

theorem recalculate_overwrites_and_is_idempotent:
  assumes "getMember st mid = Some m"
  shows "recalculateMemberStats cfg mid st =
           (Inr (recalculated cfg st mid),
            st\<lparr>members := (members st)[mid := overwrite (recalculated cfg st mid) m]\<rparr>)
       \<and> recalculateMemberStats cfg mid (snd (recalculateMemberStats cfg mid st)) =
           recalculateMemberStats cfg mid st
       \<and> (exact_range (verifiedOf st mid) \<longrightarrow>
            totalSavings (recalculated cfg st mid) = exact_sum (map amount (verifiedOf st mid)) \<and>
            totalFines (recalculated cfg st mid) =
              exact_sum (map fineAmount (verifiedOf st mid)))"
proof -
  let ?r = "recalculated cfg st mid"
  let ?st' = "st\<lparr>members := (members st)[mid := overwrite ?r m]\<rparr>"
  have first: "recalculateMemberStats cfg mid st = (Inr ?r, ?st')"
    by (rule recalculate_eq [OF assms])
  from assms have lt: "mid < length (members st)"
    by (simp add: getMember_def split: if_splits)
  then have "getMember ?st' mid = Some (overwrite ?r m)"
    by (simp add: getMember_def)
  then have "recalculateMemberStats cfg mid ?st' =
      (Inr (recalculated cfg ?st' mid),
       ?st'\<lparr>members := (members ?st')[mid := overwrite (recalculated cfg ?st' mid) (overwrite ?r m)]\<rparr>)"
    by (rule recalculate_eq)
  then have "recalculateMemberStats cfg mid ?st' = (Inr ?r, ?st')"
    by simp
  with first have second: "recalculateMemberStats cfg mid (snd (recalculateMemberStats cfg mid st)) =
           recalculateMemberStats cfg mid st"
    by simp
  have third: "exact_range (verifiedOf st mid) \<longrightarrow>
            totalSavings ?r = exact_sum (map amount (verifiedOf st mid)) \<and>
            totalFines ?r = exact_sum (map fineAmount (verifiedOf st mid))"
    by (intro impI recalculated_exact)
  from first second third show ?thesis
    by (intro conjI)
qed

theorem recalculate_overwrites_and_is_idempotent_witness:
  "getMember drifted_db 0 = Some (thabo\<lparr>totalSavings := Num 999, pendingCount := 7\<rparr>)
   \<and> exact_range (verifiedOf drifted_db 0)
   \<and> fst (recalculateMemberStats repo_settings 0 drifted_db) =
       Inr \<lparr>totalSavings = Num 300, totalFines = Num 50, submissionCount = 3, verifiedCount = 1,
            pendingCount = 1, rejectedCount = 1, qualifiesForInterest = False\<rparr>
   \<and> stats.truncate (members (snd (recalculateMemberStats repo_settings 0 drifted_db)) ! 0) =
       \<lparr>totalSavings = Num 300, totalFines = Num 50, submissionCount = 3, verifiedCount = 1,
        pendingCount = 1, rejectedCount = 1, qualifiesForInterest = False\<rparr>
   \<and> recalculateMemberStats repo_settings 0 (snd (recalculateMemberStats repo_settings 0 drifted_db)) =
       recalculateMemberStats repo_settings 0 drifted_db
   \<and> exact_sum (map amount (verifiedOf drifted_db 0)) = Num 300
   \<and> exact_sum (map fineAmount (verifiedOf drifted_db 0)) = Num 50"
proof -
  have h: "getMember drifted_db 0 = Some (thabo\<lparr>totalSavings := Num 999, pendingCount := 7\<rparr>)"
    by code_simp
  have x: "exact_range (verifiedOf drifted_db 0)"
    by code_simp
  have r: "recalculated repo_settings drifted_db 0 =
       \<lparr>totalSavings = Num 300, totalFines = Num 50, submissionCount = 3, verifiedCount = 1,
        pendingCount = 1, rejectedCount = 1, qualifiesForInterest = False\<rparr>"
    by code_simp
  have ms: "members drifted_db = [thabo\<lparr>totalSavings := Num 999, pendingCount := 7\<rparr>]"
    by (simp add: drifted_db_def)
  note main = recalculate_overwrites_and_is_idempotent [OF h, of repo_settings]
  from main have eq: "recalculateMemberStats repo_settings 0 drifted_db =
      (Inr (recalculated repo_settings drifted_db 0),
       drifted_db\<lparr>members := (members drifted_db)
         [0 := overwrite (recalculated repo_settings drifted_db 0)
                 (thabo\<lparr>totalSavings := Num 999, pendingCount := 7\<rparr>)]\<rparr>)"
    by (rule conjunct1)
  from main have idem: "recalculateMemberStats repo_settings 0
        (snd (recalculateMemberStats repo_settings 0 drifted_db)) =
      recalculateMemberStats repo_settings 0 drifted_db"
    by (rule conjunct2 [THEN conjunct1])
  from main x have ex: "totalSavings (recalculated repo_settings drifted_db 0) =
        exact_sum (map amount (verifiedOf drifted_db 0)) \<and>
      totalFines (recalculated repo_settings drifted_db 0) =
        exact_sum (map fineAmount (verifiedOf drifted_db 0))"
    by blast
  have t: "stats.truncate (members (snd (recalculateMemberStats repo_settings 0 drifted_db)) ! 0) =
       \<lparr>totalSavings = Num 300, totalFines = Num 50, submissionCount = 3, verifiedCount = 1,
        pendingCount = 1, rejectedCount = 1, qualifiesForInterest = False\<rparr>"
    by (simp add: eq ms r overwrite_def stats.truncate_def)
  have f: "fst (recalculateMemberStats repo_settings 0 drifted_db) =
       Inr \<lparr>totalSavings = Num 300, totalFines = Num 50, submissionCount = 3, verifiedCount = 1,
            pendingCount = 1, rejectedCount = 1, qualifiesForInterest = False\<rparr>"
    by (simp add: eq r)
  from ex r have s: "exact_sum (map amount (verifiedOf drifted_db 0)) = Num 300"
      "exact_sum (map fineAmount (verifiedOf drifted_db 0)) = Num 50"
    by simp_all
  from h x f t idem s show ?thesis by blast
qed

text \<open>
  The claim as stated fails where a sum is rounded. Two verified amounts \<open>2^53\<close> and 1
  give the total \<open>2^53\<close>, while their sum is \<open>2^53 + 1\<close>. The amounts 0.1 and 0.2, as
  \<open>parseFloat\<close> reads them, give the total 0.30000000000000004, which is not the sum of
  the two stored amounts.
\<close>

theorem recalculated_total_is_rounded:
  "fst (recalculateMemberStats repo_settings 0 (two_payments_db (Num (2 ^ 53)) (Num 1))) =
       Inr \<lparr>totalSavings = Num (2 ^ 53), totalFines = Num 0, submissionCount = 2,
            verifiedCount = 2, pendingCount = 0, rejectedCount = 0, qualifiesForInterest = True\<rparr>
   \<and> exact_sum (map amount (verifiedOf (two_payments_db (Num (2 ^ 53)) (Num 1)) 0)) =
       Num (2 ^ 53 + 1)
   \<and> to_double (1 / 10) = Num (3602879701896397 / 36028797018963968)
   \<and> to_double (2 / 10) = Num (3602879701896397 / 18014398509481984)
   \<and> fst (recalculateMemberStats repo_settings 0
         (two_payments_db (to_double (1 / 10)) (to_double (2 / 10)))) =
       Inr \<lparr>totalSavings = Num (1351079888211149 / 4503599627370496), totalFines = Num 0,
            submissionCount = 2, verifiedCount = 2, pendingCount = 0, rejectedCount = 0,
            qualifiesForInterest = False\<rparr>
   \<and> exact_sum (map amount
         (verifiedOf (two_payments_db (to_double (1 / 10)) (to_double (2 / 10))) 0)) =
       Num (10808639105689191 / 36028797018963968)"
  by code_simp

section \<open>Bulk recalculation\<close>

lemma length_recalc_members [simp]:
  "length (recalc_members cfg st ids) = length (members st)"
  by (simp add: recalc_members_def)

lemma nth_recalc_members:
  "j < length (members st) \<Longrightarrow>
   recalc_members cfg st ids ! j =
     (if j \<in> set ids then overwrite (recalculated cfg st j) (members st ! j)
      else members st ! j)"
  by (simp add: recalc_members_def nth_enumerate_eq)

lemma recalc_members_step:
  assumes "i < length (members st)"
  shows "recalc_members cfg
           (st\<lparr>members := (members st)[i := overwrite (recalculated cfg st i) (members st ! i)]\<rparr>) ids
         = recalc_members cfg st (i # ids)"
  using assms
  by (intro nth_equalityI) (auto simp: nth_recalc_members nth_list_update)

lemma recalc_loop_all_present:
  "list_all (\<lambda>i. i < length (members st)) ids \<Longrightarrow>
   recalc_loop cfg ids c st =
     (Inr (c + int (length ids)), st\<lparr>members := recalc_members cfg st ids\<rparr>)"
proof (induction ids arbitrary: c st)
  case Nil
  have "recalc_members cfg st [] = members st"
    by (intro nth_equalityI) (auto simp: nth_recalc_members)
  then show ?case by simp
next
  case (Cons i ids)
  then have i: "i < length (members st)" and rest: "list_all (\<lambda>i. i < length (members st)) ids"
    by simp_all
  let ?st1 = "st\<lparr>members := (members st)[i := overwrite (recalculated cfg st i) (members st ! i)]\<rparr>"
  from i have "getMember st i = Some (members st ! i)"
    by (simp add: getMember_def)
  then have one: "recalculateMemberStats cfg i st = (Inr (recalculated cfg st i), ?st1)"
    by (rule recalculate_eq)
  from rest have "list_all (\<lambda>i. i < length (members ?st1)) ids"
    by simp
  then have "recalc_loop cfg ids (c + 1) ?st1 =
      (Inr (c + 1 + int (length ids)), ?st1\<lparr>members := recalc_members cfg ?st1 ids\<rparr>)"
    by (rule Cons.IH)
  with one i show ?case
    by (simp add: recalc_members_step)
qed

lemma recalc_loop_append:
  "recalc_loop cfg (xs @ ys) c st =
     (case recalc_loop cfg xs c st of
        (Inl e, st') \<Rightarrow> (Inl e, st')
      | (Inr c', st') \<Rightarrow> recalc_loop cfg ys c' st')"
  by (induction xs arbitrary: c st) (auto split: prod.splits sum.splits)

lemma getMembers_ids: "set (map fst (getMembers st)) = {0..<length (members st)}"
proof -
  have "fst ` set (enumerate 0 (members st)) = set (map fst (enumerate 0 (members st)))"
    by (rule set_map [symmetric])
  also have "\<dots> = set [0..<0 + length (members st)]"
    by (simp only: map_fst_enumerate)
  also have "\<dots> = {0..<length (members st)}"
    by simp
  finally have a: "fst ` set (enumerate 0 (members st)) = {0..<length (members st)}" .
  show ?thesis
    unfolding getMembers_def by (simp only: set_map set_sort a)
qed

lemma length_getMembers [simp]: "length (getMembers st) = length (members st)"
  by (simp add: getMembers_def)

lemma recalc_members_all:
  "set ids = {0..<length (members st)} \<Longrightarrow>
   recalc_members cfg st ids =
     map (\<lambda>im. overwrite (recalculated cfg st (fst im)) (snd im)) (enumerate 0 (members st))"
  by (intro nth_equalityI) (auto simp: nth_recalc_members nth_enumerate_eq)

text \<open>
  C6, as the code has it. \<open>recalculateAllMemberStats\<close> recalculates every member in turn
  (in name order) and returns the number of members: with every listed member present
  no recalculation fails. The loop has no handler of its own: when the recalculation of
  one member throws (\<open>Member not found\<close>, for a listed member whose document is gone),
  the loop ends there and the exception reaches the caller; the members before it stay
  recalculated, the members after it are not processed and no count is returned.
\<close>

theorem bulk_recalculation_stops_at_first_failure:
  "recalculateAllMemberStats cfg st =
     (Inr (int (length (members st))),
      st\<lparr>members := map (\<lambda>im. overwrite (recalculated cfg st (fst im)) (snd im))
                         (enumerate 0 (members st))\<rparr>)
   \<and> (list_all (\<lambda>i. i < length (members st)) before \<and> \<not> missing < length (members st) \<longrightarrow>
        recalc_loop cfg (before @ missing # rest) c st =
          (Inl MemberNotFound, st\<lparr>members := recalc_members cfg st before\<rparr>))"
proof
  have "list_all (\<lambda>i. i < length (members st)) (map fst (getMembers st))"
    using getMembers_ids [of st] by (auto simp: list_all_iff simp del: set_map)
  then show "recalculateAllMemberStats cfg st =
     (Inr (int (length (members st))),
      st\<lparr>members := map (\<lambda>im. overwrite (recalculated cfg st (fst im)) (snd im))
                         (enumerate 0 (members st))\<rparr>)"
    by (simp add: recalculateAllMemberStats_def recalc_loop_all_present
        recalc_members_all [OF getMembers_ids])
next
  show "list_all (\<lambda>i. i < length (members st)) before \<and> \<not> missing < length (members st) \<longrightarrow>
        recalc_loop cfg (before @ missing # rest) c st =
          (Inl MemberNotFound, st\<lparr>members := recalc_members cfg st before\<rparr>)"
  proof
    assume a: "list_all (\<lambda>i. i < length (members st)) before \<and> \<not> missing < length (members st)"
    then have "getMember (st\<lparr>members := recalc_members cfg st before\<rparr>) missing = None"
      by (simp add: getMember_def)
    then have "recalculateMemberStats cfg missing (st\<lparr>members := recalc_members cfg st before\<rparr>) =
        (Inl MemberNotFound, st\<lparr>members := recalc_members cfg st before\<rparr>)"
      by (rule recalculate_missing)
    with a show "recalc_loop cfg (before @ missing # rest) c st =
          (Inl MemberNotFound, st\<lparr>members := recalc_members cfg st before\<rparr>)"
      by (simp add: recalc_loop_append recalc_loop_all_present)
  qed
qed


theorem bulk_recalculation_stops_at_first_failure_witness:
  "list_all (\<lambda>i. i < length (members two_drifted_db)) [0]
   \<and> \<not> 7 < length (members two_drifted_db)
   \<and> fst (recalculateAllMemberStats repo_settings two_drifted_db) = Inr 2
   \<and> recalc_loop repo_settings ([0] @ 7 # [1]) 0 two_drifted_db =
       (Inl MemberNotFound,
        two_drifted_db\<lparr>members := recalc_members repo_settings two_drifted_db [0]\<rparr>)"
proof -
  have len: "length (members two_drifted_db) = 2"
    by (simp add: two_drifted_db_def drifted_db_def)
  show ?thesis
    using bulk_recalculation_stops_at_first_failure
      [of repo_settings two_drifted_db "[0]" 7 "[1]" 0]
    by (simp add: len)
qed

text \<open>
  The claim as stated fails: with member 7 missing from the list \<open>[0, 7, 1]\<close>, the loop
  raises \<open>MemberNotFound\<close>; member 0 has been repaired (300), member 1 keeps its stale
  total 555, where recalculation would give 0.
\<close>

theorem bulk_recalculation_failure_counterexample:
  "fst (recalc_loop repo_settings [0, 7, 1] 0 two_drifted_db) = Inl MemberNotFound
   \<and> totalSavings (members (snd (recalc_loop repo_settings [0, 7, 1] 0 two_drifted_db)) ! 0) = Num 300
   \<and> totalSavings (members (snd (recalc_loop repo_settings [0, 7, 1] 0 two_drifted_db)) ! 1) = Num 555
   \<and> totalSavings (recalculated repo_settings two_drifted_db 1) = Num 0"
  by code_simp

section \<open>Credentials\<close>

lemma find_from_Some:
  "find_from k P xs = Some (i, x) \<Longrightarrow> k \<le> i \<and> i - k < length xs \<and> xs ! (i - k) = x \<and> P x"
proof (induction xs arbitrary: k)
  case Nil
  then show ?case by simp
next
  case (Cons y ys)
  show ?case
  proof (cases "P y")
    case True
    with Cons.prems show ?thesis by auto
  next
    case False
    with Cons.prems have "find_from (Suc k) P ys = Some (i, x)" by simp
    from Cons.IH [OF this]
    have ih: "Suc k \<le> i" "i - Suc k < length ys" "ys ! (i - Suc k) = x" "P x"
      by simp_all
    from ih(1) have "i - k = Suc (i - Suc k)" by simp
    with ih show ?thesis by simp
  qed
qed

lemma registerMember_stores_hash:
  assumes "fst (registerMember D memberData st) = Inr (i, r)"
  shows "i = length (members st)
       \<and> members (snd (registerMember D memberData st)) =
           members st @ [new_member (trim (reg_name memberData)) (reg_idNumber memberData)
              (normalizePhone (reg_phone memberData)) (hashPassword D (reg_password memberData)) r]"
  using assms
  by (auto simp: registerMember_def Let_def split: if_splits)

lemma registerMember_passwordHash:
  assumes "fst (registerMember D memberData st) = Inr (i, r)"
  shows "passwordHash (members (snd (registerMember D memberData st)) ! i) =
           hashPassword D (reg_password memberData)"
  using registerMember_stores_hash [OF assms]
  by (simp add: new_member_def)

lemma upd_registerMember_passwordHash:
  assumes "fst (upd_registerMember D rnd memberData st) = Inr (i, r)"
  shows "passwordHash (members (snd (upd_registerMember D rnd memberData st)) ! i) =
           upd_hashPassword D (reg_password memberData)"
  using assms
  by (auto simp: upd_registerMember_def Let_def new_member_def split: if_splits)

text \<open>
  The hexadecimal form: two lower-case digits for each byte, from which the byte is
  read back.
\<close>

lemma of_char_lt_256: "(of_char c :: nat) < 256"
proof -
  have "(of_char c :: nat) = of_char c mod 256"
    by simp
  also have "\<dots> < 256"
    by (rule mod_less_divisor) simp
  finally show ?thesis .
qed

lemma hex_val_hex_digit: "n < 16 \<Longrightarrow> hex_val (hex_digit n) = Some (int n)"
  by (cases "n < 10") (auto simp: hex_val_def hex_digit_def Let_def)

lemma unhex_hex_byte: "unhex (hex_byte b @ rest) = b # unhex rest"
proof -
  let ?n = "of_char b :: nat"
  have "?n div 16 < 16"
    using of_char_lt_256 [of b] by (intro less_mult_imp_div_less) simp
  moreover have "?n mod 16 < 16"
    by simp
  ultimately have lt: "?n div 16 < 16" "?n mod 16 < 16"
    by simp_all
  have "nat (16 * int (?n div 16) + int (?n mod 16)) = ?n"
    by (simp add: nat_add_distrib nat_mult_distrib)
  with lt show ?thesis
    by (simp add: hex_byte_def hex_val_hex_digit)
qed

lemma unhex_hex: "unhex (concat (map hex_byte bs)) = bs"
  by (induction bs) (simp_all add: unhex_hex_byte)

lemma lower_hex_digit: "n < 16 \<Longrightarrow> lower_hex [hex_digit n]"
  by (auto simp: lower_hex_def hex_digit_def Let_def)

lemma lower_hex_hex_byte: "lower_hex (hex_byte b)"
proof -
  let ?n = "of_char b :: nat"
  have "?n div 16 < 16"
    using of_char_lt_256 [of b] by (intro less_mult_imp_div_less) simp
  moreover have "?n mod 16 < 16"
    by simp
  ultimately have "lower_hex [hex_digit (?n div 16)]" "lower_hex [hex_digit (?n mod 16)]"
    by (simp_all only: lower_hex_digit)
  then show ?thesis
    by (simp add: lower_hex_def hex_byte_def)
qed

lemma lower_hex_hex: "lower_hex (concat (map hex_byte bs))"
  using lower_hex_hex_byte by (induction bs) (simp_all add: lower_hex_def)

lemma length_hex: "length (concat (map hex_byte bs)) = 2 * length bs"
  by (induction bs) (simp_all add: hex_byte_def)

lemma utf8_encode_ascii: "is_ascii s \<Longrightarrow> utf8_encode s = s"
  by (induction s) (simp_all add: utf8_encode_def is_ascii_def Let_def)

text \<open>
  C10. \<open>hashPassword D password\<close> is the digest of the password's UTF-8 bytes, and of
  nothing else, written as two lower-case hexadecimal digits per byte: read back as
  bytes it is \<open>D\<close> of the encoded password, and an ASCII password is encoded as itself.
  Whatever the store and the other registration data, a successful \<open>registerMember\<close>
  stores exactly that value as the new member's \<open>passwordHash\<close>, so two members who
  register with the same password hold the same digest. \<open>verifyMemberLogin\<close> returns
  the member found by the phone exactly when \<open>hashPassword\<close> of the supplied password
  equals that member's stored digest, and \<open>null\<close> in every other case.
\<close>

theorem passwords_hashed_without_salt:
  "unhex (hashPassword D password) = D (utf8_encode password)
   \<and> length (hashPassword D password) = 2 * length (D (utf8_encode password))
   \<and> lower_hex (hashPassword D password)
   \<and> (is_ascii password \<longrightarrow> unhex (hashPassword D password) = D password)
   \<and> (fst (registerMember D dataA stA) = Inr (iA, rA) \<and>
      fst (registerMember D dataB stB) = Inr (iB, rB) \<and>
      reg_password dataA = reg_password dataB \<longrightarrow>
        passwordHash (members (snd (registerMember D dataA stA)) ! iA) =
          hashPassword D (reg_password dataA) \<and>
        passwordHash (members (snd (registerMember D dataB stB)) ! iB) =
          passwordHash (members (snd (registerMember D dataA stA)) ! iA))
   \<and> (verifyMemberLogin D st ph password = Some (i, m)) =
       (getMemberByPhone st ph = Some (i, m) \<and> hashPassword D password = passwordHash m)
   \<and> (verifyMemberLogin D st ph password = None) =
       (\<not> (\<exists>j k. getMemberByPhone st ph = Some (j, k) \<and> hashPassword D password = passwordHash k))"
proof (intro conjI impI)
  show "unhex (hashPassword D password) = D (utf8_encode password)"
    by (simp add: hashPassword_def unhex_hex)
  show "length (hashPassword D password) = 2 * length (D (utf8_encode password))"
    by (simp add: hashPassword_def length_hex)
  show "lower_hex (hashPassword D password)"
    by (simp add: hashPassword_def lower_hex_hex)
next
  assume "is_ascii password"
  then show "unhex (hashPassword D password) = D password"
    by (simp add: hashPassword_def unhex_hex utf8_encode_ascii)
next
  assume a: "fst (registerMember D dataA stA) = Inr (iA, rA) \<and>
    fst (registerMember D dataB stB) = Inr (iB, rB) \<and>
    reg_password dataA = reg_password dataB"
  then show "passwordHash (members (snd (registerMember D dataA stA)) ! iA) =
        hashPassword D (reg_password dataA)"
    by (simp add: registerMember_passwordHash)
  from a show "passwordHash (members (snd (registerMember D dataB stB)) ! iB) =
        passwordHash (members (snd (registerMember D dataA stA)) ! iA)"
    by (simp add: registerMember_passwordHash)
next
  show "(verifyMemberLogin D st ph password = Some (i, m)) =
       (getMemberByPhone st ph = Some (i, m) \<and> hashPassword D password = passwordHash m)"
    by (auto simp: verifyMemberLogin_def split: option.splits)
next
  show "(verifyMemberLogin D st ph password = None) =
       (\<not> (\<exists>j k. getMemberByPhone st ph = Some (j, k) \<and> hashPassword D password = passwordHash k))"
    by (auto simp: verifyMemberLogin_def split: option.splits)
qed

theorem passwords_hashed_without_salt_witness:
  "is_ascii ''secret''
   \<and> unhex (hashPassword toy_digest ''secret'') = toy_digest ''secret''
   \<and> hashPassword toy_digest ''secret'' = ''86''
   \<and> fst (registerMember toy_digest thabo_data empty_db) = Inr (0, Counter 1001)
   \<and> fst (registerMember toy_digest zanele_data
            (snd (registerMember toy_digest thabo_data empty_db))) = Inr (1, Counter 1002)
   \<and> reg_password thabo_data = reg_password zanele_data
   \<and> passwordHash (members (snd (registerMember toy_digest thabo_data empty_db)) ! 0) = ''86''
   \<and> passwordHash (members (snd (registerMember toy_digest zanele_data
          (snd (registerMember toy_digest thabo_data empty_db)))) ! 1) =
       passwordHash (members (snd (registerMember toy_digest thabo_data empty_db)) ! 0)"
proof -
  have h0: "is_ascii ''secret''"
    by code_simp
  have v: "hashPassword toy_digest ''secret'' = ''86''"
    by code_simp
  have h1: "fst (registerMember toy_digest thabo_data empty_db) = Inr (0, Counter 1001)"
    by code_simp
  have h2: "fst (registerMember toy_digest zanele_data
            (snd (registerMember toy_digest thabo_data empty_db))) = Inr (1, Counter 1002)"
    by code_simp
  have h3: "reg_password thabo_data = reg_password zanele_data"
    by (simp add: thabo_data_def zanele_data_def)
  have p: "reg_password thabo_data = ''secret''"
    by (simp add: thabo_data_def)
  note t = passwords_hashed_without_salt [where D = toy_digest and password = "''secret''"
      and dataA = thabo_data
      and stA = empty_db and iA = 0 and rA = "Counter 1001" and dataB = zanele_data
      and stB = "snd (registerMember toy_digest thabo_data empty_db)" and iB = 1
      and rB = "Counter 1002"]
  from t h0 have a: "unhex (hashPassword toy_digest ''secret'') = toy_digest ''secret''"
    by blast
  from t h1 h2 h3 have b:
    "passwordHash (members (snd (registerMember toy_digest thabo_data empty_db)) ! 0) =
        hashPassword toy_digest (reg_password thabo_data)"
    "passwordHash (members (snd (registerMember toy_digest zanele_data
          (snd (registerMember toy_digest thabo_data empty_db)))) ! 1) =
       passwordHash (members (snd (registerMember toy_digest thabo_data empty_db)) ! 0)"
    by blast+
  from b(1) p v have c:
    "passwordHash (members (snd (registerMember toy_digest thabo_data empty_db)) ! 0) = ''86''"
    by simp
  from h0 a v h1 h2 h3 c b(2) show ?thesis
    by blast
qed

section \<open>The amount of a submission\<close>

lemma upd_submitPOP_never_rejects:
  "fst (upd_submitPOP cfg rnd submissionData st) = Inr (Random rnd)"
  by (simp add: upd_submitPOP_def Let_def)

lemma submitPOP_rejects_amount_iff:
  "(fst (submitPOP cfg today submissionData st) = Inl MinimumContribution) =
     (pop_amount submissionData = NaN \<or>
      (\<exists>m. cfg ''minimumContribution'' = Some m \<and> js_lt (pop_amount submissionData) m))"
proof (cases "cfg ''minimumContribution''")
  case None
  then show ?thesis
    by (simp add: submitPOP_def Let_def split: option.splits)
next
  case (Some m)
  then show ?thesis
    by (simp add: submitPOP_def Let_def split: option.splits)
qed

lemma js_le_zero_cases: "x \<noteq> NaN \<Longrightarrow> js_le x (Num 0) = (\<not> js_lt (Num 0) x)"
  by (cases x) auto

text \<open>
  C4, as the code has it. Neither \<open>Database.submitPOP\<close> checks that the amount is
  greater than zero. The single-store one never rejects a submission. The dual-store
  one throws its minimum-contribution error exactly when the parsed amount is \<open>NaN\<close> or
  is below the setting \<open>minimumContribution\<close>, when the settings define it: a hard
  minimum, not an advisory one. The rule "greater than zero, minimum advisory" is the
  submission form's: its amount check accepts exactly the amounts greater than zero,
  whatever the minimum, and refuses a missing or non-positive amount.
\<close>

theorem amount_rules_of_submission:
  "fst (upd_submitPOP cfg rnd updData st) = Inr (Random rnd)
   \<and> (fst (submitPOP cfg today submissionData st) = Inl MinimumContribution) =
       (pop_amount submissionData = NaN \<or>
        (\<exists>m. cfg ''minimumContribution'' = Some m \<and> js_lt (pop_amount submissionData) m))
   \<and> (\<exists>w. validateAmount cfg amt = AmountAccepted w) = js_lt (Num 0) amt
   \<and> (validateAmount cfg amt = AmountNotPositive) = js_le amt (Num 0)
   \<and> (validateAmount cfg amt = AmountMissing) = (amt = NaN)"
  using upd_submitPOP_never_rejects [of cfg rnd updData st]
    submitPOP_rejects_amount_iff [of cfg today submissionData st]
  by (cases amt) (auto simp: validateAmount_def)

text \<open>
  The claim as stated fails: an amount of 0 is accepted by the single-store
  \<open>submitPOP\<close>, and by the dual-store one under the repository's settings; with the
  minimum defined as 300, the dual-store \<open>submitPOP\<close> rejects the positive amount 100.
\<close>

theorem amount_rules_counterexample:
  "fst (upd_submitPOP repo_settings ''ABCDEF'' (pop300\<lparr>upop_amount := Num 0\<rparr>) one_member_db) =
      Inr (Random ''ABCDEF'')
   \<and> fst (submitPOP repo_settings 3 (pop_of (Num 0)) one_member_db) = Inr (Counter 10001)
   \<and> fst (submitPOP db_settings 3 (pop_of (Num 100)) one_member_db) = Inl MinimumContribution"
  by code_simp

section \<open>The link from a submission to its member\<close>

lemma normalizePhone_idem [simp]: "normalizePhone (normalizePhone p) = normalizePhone p"
  by (simp add: normalizePhone_def)

lemma getMemberByPhone_normalized [simp]:
  "getMemberByPhone st (normalizePhone p) = getMemberByPhone st p"
  by (simp add: getMemberByPhone_def)

lemma map_memberId_update_same:
  "i < length xs \<Longrightarrow> memberId y = memberId (xs ! i) \<Longrightarrow>
   map memberId (xs[i := y]) = map memberId xs"
  by (simp add: map_update list_update_same_conv)

lemma upd_submitPOP_link:
  "submissions (snd (upd_submitPOP cfg rnd submissionData st)) =
     submissions st @ [last (submissions (snd (upd_submitPOP cfg rnd submissionData st)))]
   \<and> memberId (last (submissions (snd (upd_submitPOP cfg rnd submissionData st)))) =
       map_option fst (getMemberByPhone st (upop_phone submissionData))"
  by (simp add: upd_submitPOP_def Let_def split: option.splits prod.splits)

lemma upd_rejectSubmission_links:
  "map memberId (submissions (snd (upd_rejectSubmission submissionId reason st))) =
     map memberId (submissions st)"
  by (auto simp: upd_rejectSubmission_def getSubmission_def Let_def map_memberId_update_same
      split: option.splits if_splits)

lemma upd_approveSubmission_links:
  "map memberId (submissions (snd (upd_approveSubmission cfg nowYear submissionId memberIdArg st))) =
     (if fst (upd_approveSubmission cfg nowYear submissionId memberIdArg st) = Inr ()
      then (map memberId (submissions st))[submissionId := memberIdArg]
      else map memberId (submissions st))"
  by (auto simp: upd_approveSubmission_def getSubmission_def Let_def map_update
      split: option.splits if_splits)

lemma approveSubmission_links:
  "map memberId (submissions (snd (approveSubmission cfg nowYear submissionId st))) =
     map memberId (submissions st)"
  by (auto simp: approveSubmission_def getSubmission_def Let_def map_memberId_update_same
      split: option.splits if_splits)

lemma rejectSubmission_links:
  "map memberId (submissions (snd (rejectSubmission submissionId reason st))) =
     map memberId (submissions st)"
  by (auto simp: rejectSubmission_def getSubmission_def Let_def map_memberId_update_same
      split: option.splits if_splits)

lemma submitPOP_link:
  "fst (submitPOP cfg today submissionData st) = Inr r \<Longrightarrow>
   submissions (snd (submitPOP cfg today submissionData st)) =
     submissions st @ [last (submissions (snd (submitPOP cfg today submissionData st)))]
   \<and> memberId (last (submissions (snd (submitPOP cfg today submissionData st)))) =
       map_option fst (getMemberByPhone st (pop_phone submissionData))"
  by (auto simp: submitPOP_def Let_def split: option.splits prod.splits if_splits)

lemma submitPOP_failure_keeps_submissions:
  "fst (submitPOP cfg today submissionData st) = Inl e \<Longrightarrow>
   submissions (snd (submitPOP cfg today submissionData st)) = submissions st"
  by (auto simp: submitPOP_def Let_def split: option.splits prod.splits if_splits)

text \<open>
  C8, as the code has it. Both \<open>submitPOP\<close> functions store as \<open>memberId\<close> the id of the
  member found by the normalised phone (none for a guest). Both \<open>rejectSubmission\<close>
  functions and the dual-store \<open>approveSubmission\<close> leave the \<open>memberId\<close> of every
  submission as it was. The single-store \<open>approveSubmission(submissionId, memberId)\<close>
  writes its \<open>memberId\<close> argument (\<open>null\<close> by default) into the approved submission: the
  stored link of that submission becomes the argument, and the other links stay.
\<close>

theorem member_link_set_at_submit_and_by_approve_argument:
  "memberId (last (submissions (snd (upd_submitPOP cfg rnd updData st)))) =
      map_option fst (getMemberByPhone st (upop_phone updData))
   \<and> (case fst (submitPOP cfg today submissionData st) of
         Inr r \<Rightarrow> memberId (last (submissions (snd (submitPOP cfg today submissionData st)))) =
                   map_option fst (getMemberByPhone st (pop_phone submissionData))
       | Inl e \<Rightarrow> submissions (snd (submitPOP cfg today submissionData st)) = submissions st)
   \<and> map memberId (submissions (snd (upd_rejectSubmission submissionId reason st))) =
       map memberId (submissions st)
   \<and> map memberId (submissions (snd (upd_approveSubmission cfg nowYear submissionId memberIdArg st))) =
       (if fst (upd_approveSubmission cfg nowYear submissionId memberIdArg st) = Inr ()
        then (map memberId (submissions st))[submissionId := memberIdArg]
        else map memberId (submissions st))
   \<and> map memberId (submissions (snd (approveSubmission cfg nowYear submissionId st))) =
       map memberId (submissions st)
   \<and> map memberId (submissions (snd (rejectSubmission submissionId reason st))) =
       map memberId (submissions st)"
proof -
  have a: "case fst (submitPOP cfg today submissionData st) of
         Inr r \<Rightarrow> memberId (last (submissions (snd (submitPOP cfg today submissionData st)))) =
                   map_option fst (getMemberByPhone st (pop_phone submissionData))
       | Inl e \<Rightarrow> submissions (snd (submitPOP cfg today submissionData st)) = submissions st"
  proof (cases "fst (submitPOP cfg today submissionData st)")
    case (Inl e)
    with submitPOP_failure_keeps_submissions [OF Inl] show ?thesis by simp
  next
    case (Inr r)
    with submitPOP_link [OF Inr] show ?thesis by simp
  qed
  note b = upd_submitPOP_link [of cfg rnd updData st, THEN conjunct2]
  show ?thesis
    by (intro conjI a b upd_rejectSubmission_links upd_approveSubmission_links
        approveSubmission_links rejectSubmission_links)
qed

text \<open>
  The claim as stated fails: a submission linked to member 0 at submit time is
  approved by the single-store \<open>approveSubmission\<close> with the \<open>memberId\<close> argument left
  at its default; the approval succeeds and the stored link is gone.
\<close>

theorem member_link_counterexample:
  "memberId (submissions (snd (upd_submitPOP repo_settings ''ABCDEF'' pop300 one_member_db)) ! 0) = Some 0
   \<and> fst (upd_approveSubmission repo_settings 2026 0 None
            (snd (upd_submitPOP repo_settings ''ABCDEF'' pop300 one_member_db))) = Inr ()
   \<and> memberId (submissions (snd (upd_approveSubmission repo_settings 2026 0 None
            (snd (upd_submitPOP repo_settings ''ABCDEF'' pop300 one_member_db)))) ! 0) = None"
  by code_simp

section \<open>The interest pool bucket of a fine\<close>

lemma poolFines_pool_add:
  "poolFines (pool_add y f n pool) k =
     (if k = y then (case pool y of None \<Rightarrow> f | Some e \<Rightarrow> js_add (poolTotalFines e) f)
      else poolFines pool k)"
  by (simp add: poolFines_def pool_add_def split: option.splits)

lemma digit_val_range: "is_digit c \<Longrightarrow> 0 \<le> digit_val c \<and> digit_val c \<le> 9"
  by (auto simp: is_digit_def digit_val_def)

lemma js_lt_zero_counted: "js_lt (Num 0) x \<Longrightarrow> counted x = x"
  by (cases x) (auto simp: counted_def)

lemma js_lt_zero_counted_iff [simp]: "js_lt (Num 0) (counted x) = js_lt (Num 0) x"
  by (cases x) (auto simp: counted_def)

lemma digit_not_special:
  "is_digit c \<Longrightarrow> \<not> is_space c \<and> c \<noteq> CHR ''-'' \<and> c \<noteq> CHR ''+'' \<and> c \<noteq> CHR ''x''
     \<and> c \<noteq> CHR ''X'' \<and> c \<noteq> CHR '' ''"
  by (auto simp: is_digit_def is_space_def)

lemma parseInt_four_digits:
  assumes "is_digit a" "is_digit b" "is_digit c" "is_digit d"
  shows "parseInt [a, b, c, d] = whole (decimal4 [a, b, c, d])"
proof -
  have dv: "digits_value 10 0 [a, b, c, d] = decimal4 [a, b, c, d]"
    using assms by (simp add: radix_val_def decimal4_def)
  have "parseInt [a, b, c, d] = to_double (of_int (digits_value 10 0 [a, b, c, d]))"
    using assms digit_not_special [of a] digit_not_special [of b]
    by (simp add: parseInt_def radix_val_def Let_def del: digits_value.simps)
  with dv have v: "parseInt [a, b, c, d] = to_double (of_int (decimal4 [a, b, c, d]))"
    by (simp only:)
  from assms digit_val_range [of a] digit_val_range [of b] digit_val_range [of c]
    digit_val_range [of d]
  have "\<bar>decimal4 [a, b, c, d]\<bar> \<le> 2 ^ 53"
    by (simp add: decimal4_def)
  from to_double_int [OF this] v show ?thesis
    by simp
qed

lemma four_digit_run_at_Cons_Suc [simp]:
  "four_digit_run_at (x # s) (Suc k) = four_digit_run_at s k"
  by (auto simp: four_digit_run_at_def)

lemma four_digit_run_at_short: "length s < 4 \<Longrightarrow> \<not> four_digit_run_at s k"
  by (simp add: four_digit_run_at_def)

lemma four_digit_run_at_0:
  "four_digit_run_at (a # b # c # d # rest) 0 = (is_digit a \<and> is_digit b \<and> is_digit c \<and> is_digit d)"
  by (simp add: four_digit_run_at_def)

lemma match4_None: "match4 s = None \<Longrightarrow> \<not> four_digit_run_at s k"
proof (induction s arbitrary: k rule: match4.induct)
  case (1 a b c d rest)
  then have nd: "\<not> (is_digit a \<and> is_digit b \<and> is_digit c \<and> is_digit d)"
    and rec: "match4 (b # c # d # rest) = None"
    by (auto split: if_splits)
  show ?case
  proof (cases k)
    case 0
    with nd show ?thesis by (simp add: four_digit_run_at_0)
  next
    case (Suc k')
    with "1.IH" [OF nd rec, of k'] show ?thesis by simp
  qed
qed (simp_all add: four_digit_run_at_short)

lemma match4_Some:
  "match4 s = Some tok \<Longrightarrow>
   \<exists>k. four_digit_run_at s k \<and> (\<forall>j<k. \<not> four_digit_run_at s j) \<and> tok = take 4 (drop k s)"
proof (induction s rule: match4.induct)
  case (1 a b c d rest)
  show ?case
  proof (cases "is_digit a \<and> is_digit b \<and> is_digit c \<and> is_digit d")
    case True
    with "1.prems" have "tok = [a, b, c, d]" by simp
    with True have "four_digit_run_at (a # b # c # d # rest) 0 \<and>
        (\<forall>j<0. \<not> four_digit_run_at (a # b # c # d # rest) j) \<and>
        tok = take 4 (drop 0 (a # b # c # d # rest))"
      by (simp add: four_digit_run_at_0)
    then show ?thesis by blast
  next
    case False
    with "1.prems" have rec: "match4 (b # c # d # rest) = Some tok" by simp
    from "1.IH" [OF False rec] obtain k where
      k: "four_digit_run_at (b # c # d # rest) k"
         "\<forall>j<k. \<not> four_digit_run_at (b # c # d # rest) j"
         "tok = take 4 (drop k (b # c # d # rest))"
      by blast
    have "\<forall>j<Suc k. \<not> four_digit_run_at (a # b # c # d # rest) j"
    proof (intro allI impI)
      fix j assume "j < Suc k"
      show "\<not> four_digit_run_at (a # b # c # d # rest) j"
      proof (cases j)
        case 0
        with False show ?thesis by (simp add: four_digit_run_at_0)
      next
        case (Suc j')
        with \<open>j < Suc k\<close> k(2) show ?thesis by simp
      qed
    qed
    with k(1) k(3) have "four_digit_run_at (a # b # c # d # rest) (Suc k) \<and>
        (\<forall>j<Suc k. \<not> four_digit_run_at (a # b # c # d # rest) j) \<and>
        tok = take 4 (drop (Suc k) (a # b # c # d # rest))"
      by simp
    then show ?thesis by blast
  qed
qed simp_all

lemma match4_leftmost:
  assumes "four_digit_run_at s k" "\<forall>j<k. \<not> four_digit_run_at s j"
  shows "match4 s = Some (take 4 (drop k s))"
proof (cases "match4 s")
  case None
  from match4_None [OF this, of k] assms(1) show ?thesis by simp
next
  case (Some tok)
  from match4_Some [OF this] obtain k' where
    k': "four_digit_run_at s k'" "\<forall>j<k'. \<not> four_digit_run_at s j" "tok = take 4 (drop k' s)"
    by blast
  have "k' = k"
  proof (rule ccontr)
    assume "k' \<noteq> k"
    then consider "k' < k" | "k < k'" by linarith
    then show False
    proof cases
      case 1
      with assms(2) k'(1) show False by blast
    next
      case 2
      with k'(2) assms(1) show False by blast
    qed
  qed
  with Some k'(3) show ?thesis by simp
qed

lemma length_four: "length xs = 4 \<Longrightarrow> \<exists>a b c d. xs = [a, b, c, d]"
  by (auto simp: numeral_eq_Suc length_Suc_conv)

lemma four_digit_token:
  assumes r: "four_digit_run_at s k"
  shows "\<exists>a b c d. take 4 (drop k s) = [a, b, c, d] \<and>
           is_digit a \<and> is_digit b \<and> is_digit c \<and> is_digit d"
proof -
  from r have "length (take 4 (drop k s)) = 4"
    by (auto simp: four_digit_run_at_def)
  from length_four [OF this] obtain a b c d where t: "take 4 (drop k s) = [a, b, c, d]"
    by blast
  from r have "list_all is_digit (take 4 (drop k s))"
    by (simp add: four_digit_run_at_def)
  with t show ?thesis by simp
qed

lemma extractYear_no_run:
  "(\<forall>k. \<not> four_digit_run_at label k) \<Longrightarrow> extractYearFromMonth nowYear label = whole nowYear"
proof -
  assume a: "\<forall>k. \<not> four_digit_run_at label k"
  have "match4 label = None"
  proof (cases "match4 label")
    case (Some tok)
    from match4_Some [OF this] a show ?thesis by blast
  qed simp
  then show ?thesis by (simp add: extractYearFromMonth_def)
qed

lemma extractYear_leftmost_run:
  assumes "four_digit_run_at label k" "\<forall>j<k. \<not> four_digit_run_at label j"
  shows "extractYearFromMonth nowYear label = whole (decimal4 (take 4 (drop k label)))"
proof -
  from assms(1) have ne: "label \<noteq> []" by (auto simp: four_digit_run_at_def)
  from four_digit_token [OF assms(1)] obtain a b c d where
    t: "take 4 (drop k label) = [a, b, c, d]" "is_digit a" "is_digit b" "is_digit c" "is_digit d"
    by blast
  from match4_leftmost [OF assms] t ne show ?thesis
    by (simp add: extractYearFromMonth_def parseInt_four_digits)
qed


lemma approveSubmission_pool:
  assumes "getSubmission st submissionId = Some sub" "status sub = Pending"
  shows "fst (approveSubmission cfg nowYear submissionId st) = Inr ()
       \<and> interestPool (snd (approveSubmission cfg nowYear submissionId st)) =
           (if js_lt (Num 0) (fineAmount sub)
            then pool_add (extractYearFromMonth nowYear (paymentMonth sub)) (fineAmount sub) 1
                   (interestPool st)
            else interestPool st)"
  using assms js_lt_zero_counted [of "fineAmount sub"]
  by (simp add: approveSubmission_def Let_def counted_def [symmetric] split: option.splits)

lemma upd_approveSubmission_pool:
  assumes "getSubmission st submissionId = Some sub"
    "fst (upd_approveSubmission cfg nowYear submissionId memberIdArg st) = Inr ()"
  shows "interestPool (snd (upd_approveSubmission cfg nowYear submissionId memberIdArg st)) =
           (if js_lt (Num 0) (fineAmount sub)
            then pool_add (upd_paymentYear nowYear (paymentMonth sub)) (fineAmount sub) 0
                   (interestPool st)
            else interestPool st)"
  using assms
  by (auto simp: upd_approveSubmission_def Let_def split: option.splits)

lemma split_on_no_sep: "sep \<notin> set s \<Longrightarrow> split_on sep s = [s]"
  by (induction s) auto

lemma split_on_first:
  "sep \<notin> set xs \<Longrightarrow> split_on sep (xs @ sep # ys) = xs # split_on sep ys"
  by (induction xs) auto

lemma upd_paymentYear_no_space:
  "CHR '' '' \<notin> set label \<Longrightarrow> upd_paymentYear nowYear label = whole nowYear"
  by (simp add: upd_paymentYear_def split_on_no_sep)

lemma upd_paymentYear_month_year:
  assumes "CHR '' '' \<notin> set month" "is_digit a" "is_digit b" "is_digit c" "is_digit d"
  shows "upd_paymentYear nowYear (month @ '' '' @ [a, b, c, d]) = whole (decimal4 [a, b, c, d])"
proof -
  from assms digit_not_special have "CHR '' '' \<notin> set [a, b, c, d]"
    by auto
  then have "split_on CHR '' '' [a, b, c, d] = [[a, b, c, d]]"
    by (rule split_on_no_sep)
  with assms(1) have "split_on CHR '' '' (month @ '' '' @ [a, b, c, d]) = [month, [a, b, c, d]]"
    by (simp add: split_on_first)
  with assms show ?thesis
    by (simp add: upd_paymentYear_def parseInt_four_digits)
qed

lemma match4_skip: "\<not> is_digit x \<Longrightarrow> match4 (x # s) = match4 s"
  by (cases s rule: match4.cases) (auto split: if_splits)


lemma extractYear_month_year:
  assumes "list_all (\<lambda>c. \<not> is_digit c) month" "is_digit a" "is_digit b" "is_digit c" "is_digit d"
  shows "extractYearFromMonth nowYear (month @ '' '' @ [a, b, c, d]) = whole (decimal4 [a, b, c, d])"
proof -
  have sp: "\<not> is_digit CHR '' ''" by (simp add: is_digit_def)
  from assms(1) have "match4 (month @ '' '' @ [a, b, c, d]) = match4 ('' '' @ [a, b, c, d])"
    by (induction month) (simp_all add: match4_skip)
  also have "\<dots> = match4 [a, b, c, d]"
    using sp by (simp add: match4_skip)
  also have "\<dots> = Some [a, b, c, d]"
    using assms by simp
  finally show ?thesis
    using assms by (simp add: extractYearFromMonth_def parseInt_four_digits)
qed

lemma no_four_digit_run_all: "no_four_digit_run s \<Longrightarrow> \<not> four_digit_run_at s k"
proof (cases "k < length s")
  case True
  assume "no_four_digit_run s"
  with True show ?thesis by (simp add: no_four_digit_run_def list_all_iff)
next
  case False
  then show ?thesis by (simp add: four_digit_run_at_def)
qed

lemma leftmost_run_all: "leftmost_run s k \<Longrightarrow> four_digit_run_at s k \<and> (\<forall>j<k. \<not> four_digit_run_at s j)"
  by (simp add: leftmost_run_def list_all_iff)

text \<open>
  Where the fine of an approved submission goes. When the dual-store \<open>approveSubmission\<close>
  approves a pending submission with a fine, the fine is added to the bucket keyed by
  \<open>extractYearFromMonth\<close> of the label (the bucket is created with the fine when it
  does not exist) and no other bucket changes; that key is the current calendar year
  when the label holds no four-digit token, and the number denoted by the leftmost
  four-digit token otherwise. When the single-store \<open>approveSubmission\<close> succeeds on a
  submission with a fine, the fine is added to the bucket keyed by \<open>parseInt\<close> of the
  label's second space-separated part, or by the current calendar year when the label
  holds no space. On a label of the form month, space, four digits (no digit and no
  space in the month), as the submission form builds it, both keys are the number the
  four digits denote.
\<close>

lemma fine_routed_by_label_year:
  "(getSubmission st submissionId = Some sub \<and> status sub = Pending \<and>
      js_lt (Num 0) (fineAmount sub) \<longrightarrow>
      fst (approveSubmission cfg nowYear submissionId st) = Inr () \<and>
      (\<forall>y. poolFines (interestPool (snd (approveSubmission cfg nowYear submissionId st))) y =
            (if y = extractYearFromMonth nowYear (paymentMonth sub)
             then (case interestPool st y of None \<Rightarrow> fineAmount sub
                   | Some e \<Rightarrow> js_add (poolTotalFines e) (fineAmount sub))
             else poolFines (interestPool st) y)))
   \<and> (no_four_digit_run label \<longrightarrow> extractYearFromMonth nowYear label = whole nowYear)
   \<and> (leftmost_run label k \<longrightarrow>
        extractYearFromMonth nowYear label = whole (decimal4 (take 4 (drop k label))))
   \<and> (getSubmission st submissionId = Some sub \<and> js_lt (Num 0) (fineAmount sub) \<and>
       fst (upd_approveSubmission cfg nowYear submissionId memberIdArg st) = Inr () \<longrightarrow>
      (\<forall>y. poolFines (interestPool
                (snd (upd_approveSubmission cfg nowYear submissionId memberIdArg st))) y =
            (if y = upd_paymentYear nowYear (paymentMonth sub)
             then (case interestPool st y of None \<Rightarrow> fineAmount sub
                   | Some e \<Rightarrow> js_add (poolTotalFines e) (fineAmount sub))
             else poolFines (interestPool st) y)))
   \<and> upd_paymentYear nowYear label =
       (if CHR '' '' \<in> set label then parseInt (split_on CHR '' '' label ! 1) else whole nowYear)
   \<and> (list_all (\<lambda>c. \<not> is_digit c \<and> c \<noteq> CHR '' '') month \<and>
       is_digit a \<and> is_digit b \<and> is_digit c \<and> is_digit d \<longrightarrow>
        extractYearFromMonth nowYear (month @ '' '' @ [a, b, c, d]) = whole (decimal4 [a, b, c, d]) \<and>
        upd_paymentYear nowYear (month @ '' '' @ [a, b, c, d]) = whole (decimal4 [a, b, c, d]))"
proof (intro conjI impI)
  assume a: "getSubmission st submissionId = Some sub \<and> status sub = Pending \<and>
      js_lt (Num 0) (fineAmount sub)"
  with approveSubmission_pool [of st submissionId sub cfg nowYear]
  show "fst (approveSubmission cfg nowYear submissionId st) = Inr ()"
    by simp
  from a approveSubmission_pool [of st submissionId sub cfg nowYear]
  show "\<forall>y. poolFines (interestPool (snd (approveSubmission cfg nowYear submissionId st))) y =
            (if y = extractYearFromMonth nowYear (paymentMonth sub)
             then (case interestPool st y of None \<Rightarrow> fineAmount sub
                   | Some e \<Rightarrow> js_add (poolTotalFines e) (fineAmount sub))
             else poolFines (interestPool st) y)"
    by (simp add: poolFines_pool_add)
next
  assume "no_four_digit_run label"
  then have "\<forall>k. \<not> four_digit_run_at label k"
    by (simp add: no_four_digit_run_all)
  then show "extractYearFromMonth nowYear label = whole nowYear"
    by (rule extractYear_no_run)
next
  assume "leftmost_run label k"
  then have "four_digit_run_at label k" "\<forall>j<k. \<not> four_digit_run_at label j"
    by (simp_all add: leftmost_run_all)
  then show "extractYearFromMonth nowYear label = whole (decimal4 (take 4 (drop k label)))"
    by (rule extractYear_leftmost_run)
next
  assume a: "getSubmission st submissionId = Some sub \<and> js_lt (Num 0) (fineAmount sub) \<and>
       fst (upd_approveSubmission cfg nowYear submissionId memberIdArg st) = Inr ()"
  with upd_approveSubmission_pool [of st submissionId sub cfg nowYear memberIdArg]
  show "\<forall>y. poolFines (interestPool
                (snd (upd_approveSubmission cfg nowYear submissionId memberIdArg st))) y =
            (if y = upd_paymentYear nowYear (paymentMonth sub)
             then (case interestPool st y of None \<Rightarrow> fineAmount sub
                   | Some e \<Rightarrow> js_add (poolTotalFines e) (fineAmount sub))
             else poolFines (interestPool st) y)"
    by (simp add: poolFines_pool_add)
next
  have "length (split_on CHR '' '' label) > 1 \<longleftrightarrow> CHR '' '' \<in> set label"
  proof (induction label)
    case Nil
    show ?case by simp
  next
    case (Cons x xs)
    have ne: "split_on CHR '' '' xs \<noteq> []"
      by (cases xs) (auto split: list.splits)
    with Cons show ?case
      by (auto split: list.splits)
  qed
  then show "upd_paymentYear nowYear label =
       (if CHR '' '' \<in> set label then parseInt (split_on CHR '' '' label ! 1) else whole nowYear)"
    by (simp add: upd_paymentYear_def)
next
  assume a: "list_all (\<lambda>c. \<not> is_digit c \<and> c \<noteq> CHR '' '') month \<and>
       is_digit a \<and> is_digit b \<and> is_digit c \<and> is_digit d"
  then have m1: "list_all (\<lambda>c. \<not> is_digit c) month" and m2: "CHR '' '' \<notin> set month"
    by (auto simp: list_all_iff)
  from a extractYear_month_year [OF m1, of a b c d nowYear]
  show "extractYearFromMonth nowYear (month @ '' '' @ [a, b, c, d]) =
      whole (decimal4 [a, b, c, d])"
    by blast
  from a upd_paymentYear_month_year [OF m2, of a b c d nowYear]
  show "upd_paymentYear nowYear (month @ '' '' @ [a, b, c, d]) =
      whole (decimal4 [a, b, c, d])"
    by blast
qed

text \<open>
  On the late payment for December 2024 both modules put the fine of 50 in the bucket
  of 2024, whatever the year of the approval.
\<close>

lemma fine_of_december_2024:
  "fst (approveSubmission db_settings 2026 0 late_dual_db) = Inr ()
   \<and> poolFines (interestPool (snd (approveSubmission db_settings 2026 0 late_dual_db)))
       (Num 2024) = Num 50
   \<and> poolFines (interestPool (snd (approveSubmission db_settings 2026 0 late_dual_db)))
       (Num 2026) = Num 0
   \<and> fst (upd_approveSubmission repo_settings 2026 0 (Some 0) (late_label_db ''December 2024''))
       = Inr ()
   \<and> poolFines (interestPool (snd (upd_approveSubmission repo_settings 2026 0 (Some 0)
         (late_label_db ''December 2024'')))) (Num 2024) = Num 50
   \<and> poolFines (interestPool (snd (upd_approveSubmission repo_settings 2026 0 (Some 0)
         (late_label_db ''December 2024'')))) (Num 2026) = Num 0"
  by code_simp


section \<open>The status guard of approval and rejection\<close>

lemma approve_reject_require_pending:
  assumes "getSubmission st submissionId = Some sub" "status sub \<noteq> Pending"
  shows "approveSubmission cfg nowYear submissionId st = (Inl SubmissionAlreadyProcessed, st)"
    and "rejectSubmission submissionId reason st = (Inl SubmissionAlreadyProcessed, st)"
  using assms by (simp_all add: approveSubmission_def rejectSubmission_def)

lemma approve_reject_require_existence:
  assumes "getSubmission st submissionId = None"
  shows "approveSubmission cfg nowYear submissionId st = (Inl SubmissionNotFound, st)"
    and "rejectSubmission submissionId reason st = (Inl SubmissionNotFound, st)"
  using assms by (simp_all add: approveSubmission_def rejectSubmission_def)

text \<open>
  C2. The dual-store module does what the claim says (\<open>approve_reject_require_pending\<close>:
  on a submission that is not pending both functions throw "already processed" and
  return the store as it was). The single-store module does not read the status.
  Evaluated on a submission it has already approved: a second approval succeeds and
  credits the member again (300 becomes 600, two verified), and a rejection succeeds
  too, turning the verified submission into a rejected one and moving the counters.
\<close>

theorem upd_approve_and_reject_ignore_status:
  "status (submissions approved_once_db ! 0) = Verified
   \<and> totalSavings (members approved_once_db ! 0) = Num 300
   \<and> fst (upd_approveSubmission repo_settings 2026 0 (Some 0) approved_once_db) = Inr ()
   \<and> totalSavings (members (snd (upd_approveSubmission repo_settings 2026 0 (Some 0)
         approved_once_db)) ! 0) = Num 600
   \<and> verifiedCount (members (snd (upd_approveSubmission repo_settings 2026 0 (Some 0)
         approved_once_db)) ! 0) = 2
   \<and> fst (upd_rejectSubmission 0 ''duplicate'' approved_once_db) = Inr ()
   \<and> status (submissions (snd (upd_rejectSubmission 0 ''duplicate'' approved_once_db)) ! 0) = Rejected
   \<and> rejectedCount (members (snd (upd_rejectSubmission 0 ''duplicate'' approved_once_db)) ! 0) = 1
   \<and> pendingCount (members (snd (upd_rejectSubmission 0 ''duplicate'' approved_once_db)) ! 0) = - 1"
  by code_simp

section \<open>The count invariant\<close>

lemma all_counts_ok_iff: "all_counts_ok st \<longleftrightarrow> (\<forall>i<length (members st). counts_ok st i)"
  by (auto simp: all_counts_ok_def list_all_iff)

lemma getMember_Some: "getMember st i = Some m \<Longrightarrow> i < length (members st) \<and> members st ! i = m"
  by (auto simp: getMember_def split: if_splits)

lemma getMemberByPhone_Some:
  "getMemberByPhone st ph = Some (i, m) \<Longrightarrow> i < length (members st) \<and> members st ! i = m"
  using find_from_Some [of 0 _ "members st" i m]
  by (auto simp: getMemberByPhone_def)

lemma counts_registerMember:
  "all_counts_ok st \<Longrightarrow> all_counts_ok (snd (registerMember D memberData st))"
  by (auto simp: all_counts_ok_iff counts_ok_def registerMember_def Let_def new_member_def
      nth_append)

lemma counts_submitPOP:
  "all_counts_ok st \<Longrightarrow> all_counts_ok (snd (submitPOP cfg today submissionData st))"
  by (auto simp: all_counts_ok_iff counts_ok_def submitPOP_def Let_def nth_list_update
      dest!: getMemberByPhone_Some split: option.splits)

lemma counts_approveSubmission:
  "all_counts_ok st \<Longrightarrow> all_counts_ok (snd (approveSubmission cfg nowYear submissionId st))"
  by (auto simp: all_counts_ok_iff counts_ok_def approveSubmission_def Let_def nth_list_update
      dest!: getMember_Some split: option.splits)

lemma counts_rejectSubmission:
  "all_counts_ok st \<Longrightarrow> all_counts_ok (snd (rejectSubmission submissionId reason st))"
  by (auto simp: all_counts_ok_iff counts_ok_def rejectSubmission_def Let_def nth_list_update
      dest!: getMember_Some split: option.splits)

lemma status_partition:
  "length docs = length (filter (\<lambda>s. status s = Verified) docs)
     + length (filter (\<lambda>s. status s = Pending) docs)
     + length (filter (\<lambda>s. status s = Rejected) docs)"
proof (induction docs)
  case Nil
  show ?case by simp
next
  case (Cons d docs)
  then show ?case by (cases "status d") simp_all
qed

lemma counts_recalculated:
  "submissionCount (recalculated cfg st mid) =
     verifiedCount (recalculated cfg st mid) + pendingCount (recalculated cfg st mid)
       + rejectedCount (recalculated cfg st mid)"
  using status_partition [of "memberSubmissions st mid"]
  by (simp add: recalculated_def Let_def)

lemma counts_recalculateMemberStats:
  assumes "all_counts_ok st"
  shows "all_counts_ok (snd (recalculateMemberStats cfg mid st))"
proof (cases "getMember st mid")
  case None
  with assms show ?thesis by (simp add: recalculate_missing)
next
  case (Some m)
  with assms counts_recalculated [of cfg st mid] getMember_Some [OF Some] show ?thesis
    by (auto simp: recalculate_eq all_counts_ok_iff counts_ok_def nth_list_update overwrite_def)
qed

lemma counts_step: "all_counts_ok st \<Longrightarrow> all_counts_ok (step D cfg x st)"
  by (cases x)
     (simp_all add: step_def counts_registerMember counts_submitPOP counts_approveSubmission
        counts_rejectSubmission counts_recalculateMemberStats)

lemma counts_run: "all_counts_ok st \<Longrightarrow> all_counts_ok (run D cfg ops st)"
  unfolding run_def by (induction ops arbitrary: st) (simp_all add: counts_step)

lemma counts_hold_after_any_sequence:
  "all_counts_ok (run D cfg ops empty_db)"
  by (rule counts_run) (simp add: all_counts_ok_def empty_db_def)


text \<open>
  C3. Through the dual-store module and the recalculation the invariant holds after
  every operation of any sequence (\<open>counts_hold_after_any_sequence\<close>). The single-store
  module breaks it: its \<open>submitPOP\<close> increments \<open>pendingCount\<close> only, and its
  \<open>rejectSubmission\<close> moves one from pending to rejected, while \<open>submissionCount\<close> is
  incremented by \<open>approveSubmission\<close> alone; the same module's recalculation sets
  \<open>submissionCount\<close> to the number of all the member's submissions.
\<close>

theorem upd_submit_breaks_count_invariant:
  "all_counts_ok one_member_db
   \<and> \<not> counts_ok pending_db 0
   \<and> submissionCount (members pending_db ! 0) = 0
   \<and> verifiedCount (members pending_db ! 0) = 0
   \<and> pendingCount (members pending_db ! 0) = 1
   \<and> rejectedCount (members pending_db ! 0) = 0
   \<and> \<not> counts_ok (snd (upd_rejectSubmission 0 ''unreadable'' pending_db)) 0
   \<and> submissionCount (members (snd (upd_rejectSubmission 0 ''unreadable'' pending_db)) ! 0) = 0
   \<and> rejectedCount (members (snd (upd_rejectSubmission 0 ''unreadable'' pending_db)) ! 0) = 1
   \<and> submissionCount (recalculated repo_settings pending_db 0) = 1"
  by code_simp

section \<open>The savings invariant\<close>

text \<open>
  The invariant compares a total the program has added up in doubles with the
  mathematical sum of the amounts. The two agree as long as no sum is rounded: on
  stores whose amounts and fines are whole numbers with absolute values adding up to
  \<open>2^53\<close> at most (\<open>exact_range\<close>). Submissions are never removed and their amounts never
  change, so a sequence of operations that ends in such a store has passed through
  such stores only.
\<close>

lemma verifiedOf_alt:
  "verifiedOf st i = filter (\<lambda>s. memberId s = Some i \<and> status s = Verified) (submissions st)"
  by (simp add: verifiedOf_def memberSubmissions_def conj_commute)

lemma whole_int_of: "is_whole x \<Longrightarrow> whole (int_of x) = x"
  by (cases x) (simp_all add: is_whole_def int_of_def whole_def)

lemma int_of_whole [simp]: "int_of (whole k) = k"
  by (simp add: int_of_def whole_def)

lemma magnitude_int_of: "is_whole x \<Longrightarrow> magnitude x = of_int \<bar>int_of x\<bar>"
  using whole_int_of [of x] magnitude_whole [of "int_of x"] by simp

lemma foldl_exact_add_whole:
  "list_all is_whole xs \<Longrightarrow>
   foldl exact_add (whole acc) xs = whole (acc + sum_list (map int_of xs))"
proof (induction xs arbitrary: acc)
  case Nil
  show ?case by simp
next
  case (Cons x xs)
  then obtain k where x: "x = whole k"
    by (auto simp: is_whole_iff)
  from Cons.prems have "list_all is_whole xs" by simp
  from Cons.IH [OF this, of "acc + k"] x show ?case
    by (simp add: exact_add_whole add.assoc)
qed

lemma exact_sum_whole:
  "list_all is_whole xs \<Longrightarrow> exact_sum xs = whole (sum_list (map int_of xs))"
  using foldl_exact_add_whole [of xs 0] by (simp add: exact_sum_def whole_def)

lemma sum_magnitude_int:
  "list_all is_whole xs \<Longrightarrow>
   sum_list (map magnitude xs) = of_int (sum_list (map (\<lambda>x. \<bar>int_of x\<bar>) xs))"
  by (induction xs) (simp_all add: magnitude_int_of)

lemma exact_range_alt:
  "exact_range docs \<longleftrightarrow>
     list_all is_whole (map amount docs) \<and> list_all is_whole (map fineAmount docs) \<and>
     sum_list (map (\<lambda>x. \<bar>int_of x\<bar>) (map amount docs)) \<le> 2 ^ 53 \<and>
     sum_list (map (\<lambda>x. \<bar>int_of x\<bar>) (map fineAmount docs)) \<le> 2 ^ 53"
proof (cases "list_all is_whole (map amount docs) \<and> list_all is_whole (map fineAmount docs)")
  case True
  then have a: "sum_list (map (\<lambda>s. magnitude (amount s)) docs) =
      of_int (sum_list (map (\<lambda>x. \<bar>int_of x\<bar>) (map amount docs)))"
    and f: "sum_list (map (\<lambda>s. magnitude (fineAmount s)) docs) =
      of_int (sum_list (map (\<lambda>x. \<bar>int_of x\<bar>) (map fineAmount docs)))"
    using sum_magnitude_int [of "map amount docs"] sum_magnitude_int [of "map fineAmount docs"]
    by (simp_all add: comp_def)
  have le: "\<And>z :: int. ((of_int z :: rat) \<le> 2 ^ 53) = (z \<le> 2 ^ 53)"
  proof -
    fix z :: int
    have "((of_int z :: rat) \<le> of_int (2 ^ 53)) = (z \<le> 2 ^ 53)"
      by (simp only: of_int_le_iff)
    then show "((of_int z :: rat) \<le> 2 ^ 53) = (z \<le> 2 ^ 53)"
      by simp
  qed
  from True show ?thesis
    unfolding exact_range_def a f le
    by (auto simp: list_all_iff)
next
  case False
  then show ?thesis
    by (auto simp: exact_range_def list_all_iff)
qed

lemma exact_range_cong:
  "map amount a = map amount b \<Longrightarrow> map fineAmount a = map fineAmount b \<Longrightarrow>
   exact_range a = exact_range b"
  by (simp add: exact_range_alt)

lemma sum_abs_nonneg: "0 \<le> sum_list (map (\<lambda>x. \<bar>int_of x\<bar>) xs)"
  by (rule sum_list_nonneg) auto

lemma exact_range_append: "exact_range (xs @ ys) \<Longrightarrow> exact_range xs"
  using sum_abs_nonneg [of "map amount ys"] sum_abs_nonneg [of "map fineAmount ys"]
  by (simp add: exact_range_alt)

lemma sum_filter_le:
  fixes g :: "'a \<Rightarrow> int"
  shows "(\<And>x. 0 \<le> g x) \<Longrightarrow> sum_list (map g (filter P xs)) \<le> sum_list (map g xs)"
proof (induction xs)
  case Nil
  show ?case by simp
next
  case (Cons x xs)
  from Cons.prems [of x] Cons.IH [OF Cons.prems] show ?case
    by simp
qed

lemma exact_range_filter: "exact_range docs \<Longrightarrow> exact_range (filter P docs)"
proof -
  assume a: "exact_range docs"
  have 1: "sum_list (map (\<lambda>s. \<bar>int_of (amount s)\<bar>) (filter P docs)) \<le>
      sum_list (map (\<lambda>s. \<bar>int_of (amount s)\<bar>) docs)"
    by (rule sum_filter_le) simp
  have 2: "sum_list (map (\<lambda>s. \<bar>int_of (fineAmount s)\<bar>) (filter P docs)) \<le>
      sum_list (map (\<lambda>s. \<bar>int_of (fineAmount s)\<bar>) docs)"
    by (rule sum_filter_le) simp
  from a 1 2 show ?thesis
    by (auto simp: exact_range_alt comp_def list_all_iff)
qed

text \<open>On such a store the invariant is an equation between integers.\<close>

lemma savings_ok_int:
  assumes "exact_range (submissions st)"
  shows "savings_ok st i \<longleftrightarrow>
     totalSavings (members st ! i) =
       whole (sum_list (map (\<lambda>s. int_of (amount s)) (verifiedOf st i))) \<and>
     totalFines (members st ! i) =
       whole (sum_list (map (\<lambda>s. int_of (fineAmount s)) (verifiedOf st i)))"
proof -
  from exact_range_filter [OF assms] have "exact_range (verifiedOf st i)"
    by (simp add: verifiedOf_alt)
  then have "list_all is_whole (map amount (verifiedOf st i))"
    "list_all is_whole (map fineAmount (verifiedOf st i))"
    by (simp_all add: exact_range_alt)
  then show ?thesis
    by (simp add: savings_ok_def exact_sum_whole comp_def)
qed

lemma sum_filter_update:
  fixes f :: "'a \<Rightarrow> int"
  shows "i < length xs \<Longrightarrow>
    sum_list (map f (filter P (xs[i := y]))) =
      sum_list (map f (filter P xs)) - (if P (xs ! i) then f (xs ! i) else 0)
        + (if P y then f y else 0)"
proof (induction xs arbitrary: i)
  case Nil
  then show ?case by simp
next
  case (Cons x xs)
  show ?case
  proof (cases i)
    case 0
    then show ?thesis by simp
  next
    case (Suc j)
    with Cons.prems have "j < length xs" by simp
    from Cons.IH [OF this] Suc show ?thesis by simp
  qed
qed

lemma sum_filter_plus_le:
  fixes g :: "'a \<Rightarrow> int"
  assumes "\<And>x. 0 \<le> g x"
  shows "j < length xs \<Longrightarrow> \<not> P (xs ! j) \<Longrightarrow>
    sum_list (map g (filter P xs)) + g (xs ! j) \<le> sum_list (map g xs)"
proof (induction xs arbitrary: j)
  case Nil
  then show ?case by simp
next
  case (Cons x xs)
  show ?case
  proof (cases j)
    case 0
    with Cons.prems sum_filter_le [of g P xs, OF assms] show ?thesis by simp
  next
    case (Suc j')
    with Cons.prems have "j' < length xs" "\<not> P (xs ! j')" by simp_all
    from Cons.IH [OF this] Suc assms [of x] show ?thesis by simp
  qed
qed

lemma ledger_ok_iff:
  "ledger_ok st \<longleftrightarrow> links_ok st \<and> (\<forall>i<length (members st). savings_ok st i)"
  by (auto simp: ledger_ok_def list_all_iff)

lemma links_ok_iff:
  "links_ok st \<longleftrightarrow>
     (\<forall>s \<in> set (submissions st). \<forall>mid. memberId s = Some mid \<longrightarrow> mid < length (members st))"
  by (auto simp: links_ok_def list_all_iff split: option.splits)

lemma links_ok_alt:
  "links_ok st = list_all (\<lambda>x. case x of None \<Rightarrow> True | Some mid \<Rightarrow> mid < length (members st))
                   (map memberId (submissions st))"
  by (simp add: links_ok_def list_all_iff)

lemma links_ok_cong:
  "map memberId (submissions st') = map memberId (submissions st) \<Longrightarrow>
   length (members st') = length (members st) \<Longrightarrow> links_ok st' = links_ok st"
  unfolding links_ok_alt by (erule ssubst, erule ssubst) (rule refl)

lemma no_verified_for_new_member:
  "links_ok st \<Longrightarrow> verifiedOf st (length (members st)) = []"
  by (auto simp: verifiedOf_alt links_ok_iff filter_empty_conv)

lemma ledger_registerMember:
  assumes "ledger_ok st"
  shows "ledger_ok (snd (registerMember D memberData st))"
proof (cases "fst (registerMember D memberData st)")
  case (Inl e)
  then have "snd (registerMember D memberData st) = st"
    by (auto simp: registerMember_def Let_def split: if_splits)
  with assms show ?thesis by simp
next
  case (Inr ir)
  then obtain doc where
    ms: "members (snd (registerMember D memberData st)) = members st @ [doc]"
    and z: "totalSavings doc = Num 0" "totalFines doc = Num 0"
    and ss: "submissions (snd (registerMember D memberData st)) = submissions st"
    by (auto simp: registerMember_def Let_def new_member_def split: if_splits)
  let ?st' = "snd (registerMember D memberData st)"
  from assms have l: "links_ok st" and s: "\<forall>i<length (members st). savings_ok st i"
    by (simp_all add: ledger_ok_iff)
  from l ms ss have l': "links_ok ?st'"
    by (fastforce simp: links_ok_iff)
  have v: "\<And>i. verifiedOf ?st' i = verifiedOf st i"
    by (simp add: verifiedOf_alt ss)
  have "\<forall>i<length (members ?st'). savings_ok ?st' i"
  proof (intro allI impI)
    fix i assume "i < length (members ?st')"
    with ms have "i < length (members st) \<or> i = length (members st)" by auto
    then show "savings_ok ?st' i"
    proof
      assume "i < length (members st)"
      with s ms v show ?thesis by (simp add: savings_ok_def nth_append)
    next
      assume "i = length (members st)"
      with ms z v no_verified_for_new_member [OF l] show ?thesis
        by (simp add: savings_ok_def exact_sum_def)
    qed
  qed
  with l' show ?thesis by (simp add: ledger_ok_iff)
qed

lemma filter_update_irrelevant:
  "i < length xs \<Longrightarrow> \<not> P (xs ! i) \<Longrightarrow> \<not> P y \<Longrightarrow> filter P (xs[i := y]) = filter P xs"
proof (induction xs arbitrary: i)
  case Nil
  then show ?case by simp
next
  case (Cons x xs)
  then show ?case by (cases i) simp_all
qed

lemma ledger_ok_frame:
  assumes "ledger_ok st"
    and "length (members st') = length (members st)"
    and "\<forall>i<length (members st).
           totalSavings (members st' ! i) = totalSavings (members st ! i) \<and>
           totalFines (members st' ! i) = totalFines (members st ! i)"
    and "\<forall>i. verifiedOf st' i = verifiedOf st i"
    and "links_ok st'"
  shows "ledger_ok st'"
  using assms by (simp add: ledger_ok_iff savings_ok_def)

lemma ledger_submitPOP:
  assumes "ledger_ok st"
  shows "ledger_ok (snd (submitPOP cfg today submissionData st))"
proof (cases "fst (submitPOP cfg today submissionData st)")
  case (Inl e)
  then have "members (snd (submitPOP cfg today submissionData st)) = members st"
    "submissions (snd (submitPOP cfg today submissionData st)) = submissions st"
    by (auto simp: submitPOP_def Let_def split: option.splits prod.splits if_splits)
  with assms show ?thesis
    by (intro ledger_ok_frame [OF assms]) (simp_all add: verifiedOf_alt links_ok_iff ledger_ok_iff)
next
  case (Inr r)
  let ?st' = "snd (submitPOP cfg today submissionData st)"
  from Inr have "\<exists>doc. submissions ?st' = submissions st @ [doc] \<and> status doc = Pending \<and>
      memberId doc = map_option fst (getMemberByPhone st (pop_phone submissionData))"
    by (auto simp: submitPOP_def Let_def split: option.splits prod.splits if_splits)
  then obtain doc where
    ss: "submissions ?st' = submissions st @ [doc]"
    and pd: "status doc = Pending"
    and lk: "memberId doc = map_option fst (getMemberByPhone st (pop_phone submissionData))"
    by blast
  have len: "length (members ?st') = length (members st)"
    by (auto simp: submitPOP_def Let_def split: option.splits prod.splits if_splits)
  have tot: "\<forall>i<length (members st).
           totalSavings (members ?st' ! i) = totalSavings (members st ! i) \<and>
           totalFines (members ?st' ! i) = totalFines (members st ! i)"
    by (auto simp: submitPOP_def Let_def nth_list_update dest!: getMemberByPhone_Some
        split: option.splits prod.splits if_splits)
  have ver: "\<forall>i. verifiedOf ?st' i = verifiedOf st i"
    using ss pd by (simp add: verifiedOf_alt)
  from assms have "links_ok st" by (simp add: ledger_ok_iff)
  with ss lk len have "links_ok ?st'"
    by (auto simp: links_ok_iff dest!: getMemberByPhone_Some)
  with assms len tot ver show ?thesis
    by (intro ledger_ok_frame [OF assms])
qed

lemma ledger_rejectSubmission:
  assumes "ledger_ok st"
  shows "ledger_ok (snd (rejectSubmission submissionId reason st))"
proof (cases "fst (rejectSubmission submissionId reason st)")
  case (Inl e)
  then have "snd (rejectSubmission submissionId reason st) = st"
    by (auto simp: rejectSubmission_def Let_def split: option.splits if_splits)
  with assms show ?thesis by simp
next
  case (Inr u)
  let ?st' = "snd (rejectSubmission submissionId reason st)"
  from Inr obtain sub where
    g: "getSubmission st submissionId = Some sub" and p: "status sub = Pending"
    by (auto simp: rejectSubmission_def Let_def split: option.splits if_splits)
  then have lt: "submissionId < length (submissions st)" and nth: "submissions st ! submissionId = sub"
    by (auto simp: getSubmission_def split: if_splits)
  from Inr g p obtain sub' where
    ss: "submissions ?st' = (submissions st)[submissionId := sub']"
    and st': "status sub' = Rejected"
    by (auto simp: rejectSubmission_def Let_def split: option.splits if_splits)
  have len: "length (members ?st') = length (members st)"
    by (auto simp: rejectSubmission_def Let_def split: option.splits if_splits)
  have tot: "\<forall>i<length (members st).
           totalSavings (members ?st' ! i) = totalSavings (members st ! i) \<and>
           totalFines (members ?st' ! i) = totalFines (members st ! i)"
    by (auto simp: rejectSubmission_def Let_def nth_list_update dest!: getMember_Some
        split: option.splits if_splits)
  have ver: "\<forall>i. verifiedOf ?st' i = verifiedOf st i"
    using ss st' lt nth p by (simp add: verifiedOf_alt filter_update_irrelevant)
  from assms have l: "links_ok st" by (simp add: ledger_ok_iff)
  have "links_ok ?st'"
    using l links_ok_cong [OF rejectSubmission_links len] by simp
  with assms len tot ver show ?thesis
    by (intro ledger_ok_frame [OF assms])
qed

lemma approveSubmission_failure:
  "fst (approveSubmission cfg nowYear submissionId st) = Inl e \<Longrightarrow>
   snd (approveSubmission cfg nowYear submissionId st) = st"
  by (auto simp: approveSubmission_def Let_def split: option.splits if_splits)

lemma approveSubmission_success:
  assumes "fst (approveSubmission cfg nowYear submissionId st) = Inr u"
  shows "\<exists>sub. getSubmission st submissionId = Some sub \<and> status sub = Pending"
  using assms
  by (auto simp: approveSubmission_def Let_def split: option.splits if_splits)

lemma approveSubmission_submissions:
  assumes "getSubmission st submissionId = Some sub" "status sub = Pending"
  shows "submissions (snd (approveSubmission cfg nowYear submissionId st)) =
           (submissions st)[submissionId := sub\<lparr>status := Verified\<rparr>]"
  using assms
  by (auto simp: approveSubmission_def Let_def split: option.splits if_splits)

lemma approveSubmission_members_length:
  "length (members (snd (approveSubmission cfg nowYear submissionId st))) = length (members st)"
  by (auto simp: approveSubmission_def Let_def split: option.splits if_splits)

lemma approveSubmission_totals:
  assumes "getSubmission st submissionId = Some sub" "status sub = Pending"
    "i < length (members st)"
  shows "totalSavings (members (snd (approveSubmission cfg nowYear submissionId st)) ! i) =
           (if memberId sub = Some i
            then js_add (counted (totalSavings (members st ! i))) (counted (amount sub))
            else totalSavings (members st ! i))
       \<and> totalFines (members (snd (approveSubmission cfg nowYear submissionId st)) ! i) =
           (if memberId sub = Some i
            then js_add (counted (totalFines (members st ! i))) (counted (fineAmount sub))
            else totalFines (members st ! i))"
  using assms
  by (auto simp: approveSubmission_def Let_def nth_list_update getMember_def counted_def
      split: option.splits if_splits)

lemma sum_list_abs_int:
  fixes f :: "'a \<Rightarrow> int"
  shows "\<bar>sum_list (map f xs)\<bar> \<le> sum_list (map (\<lambda>x. \<bar>f x\<bar>) xs)"
  using sum_list_abs [of "map f xs"] by (simp add: comp_def)

text \<open>
  Crediting one more submission to a total that is the exact sum of the verified ones
  gives the exact sum again, when the store with that submission is in the exact range.
\<close>

lemma credit_exact:
  fixes f :: "submission \<Rightarrow> number"
  assumes whole: "list_all is_whole (map f xs)"
    and bound: "sum_list (map (\<lambda>x. \<bar>int_of x\<bar>) (map f xs)) \<le> 2 ^ 53"
    and j: "j < length xs" and np: "\<not> P (xs ! j)"
    and total: "t = whole (sum_list (map (\<lambda>s. int_of (f s)) (filter P xs)))"
  shows "js_add (counted t) (counted (f (xs ! j))) =
           whole (sum_list (map (\<lambda>s. int_of (f s)) (filter P xs)) + int_of (f (xs ! j)))"
proof -
  let ?S = "sum_list (map (\<lambda>s. int_of (f s)) (filter P xs))"
  let ?g = "\<lambda>s. \<bar>int_of (f s)\<bar>"
  from whole j have "is_whole (f (xs ! j))"
    by (simp add: list_all_iff)
  then have a: "f (xs ! j) = whole (int_of (f (xs ! j)))"
    by (simp add: whole_int_of)
  have "\<bar>?S\<bar> \<le> sum_list (map ?g (filter P xs))"
    by (rule sum_list_abs_int)
  moreover have "sum_list (map ?g (filter P xs)) + ?g (xs ! j) \<le> sum_list (map ?g xs)"
    using sum_filter_plus_le [where g = ?g and P = P and xs = xs and j = j] j np by simp
  moreover from bound have "sum_list (map ?g xs) \<le> 2 ^ 53"
    by (simp add: comp_def)
  ultimately have "\<bar>?S + int_of (f (xs ! j))\<bar> \<le> 2 ^ 53"
    by linarith
  from js_add_whole [OF this] total a show ?thesis
    by (metis counted_whole)
qed

lemma ledger_approveSubmission:
  assumes ok: "ledger_ok st"
    and range: "exact_range (submissions st)"
  shows "ledger_ok (snd (approveSubmission cfg nowYear submissionId st))"
proof (cases "fst (approveSubmission cfg nowYear submissionId st)")
  case (Inl e)
  with ok approveSubmission_failure [OF Inl] show ?thesis by simp
next
  case (Inr u)
  let ?st' = "snd (approveSubmission cfg nowYear submissionId st)"
  from approveSubmission_success [OF Inr] obtain sub where
    g: "getSubmission st submissionId = Some sub" and p: "status sub = Pending"
    by blast
  then have lt: "submissionId < length (submissions st)"
    and nth: "submissions st ! submissionId = sub"
    by (auto simp: getSubmission_def split: if_splits)
  note ss = approveSubmission_submissions [OF g p, of cfg nowYear]
  note len = approveSubmission_members_length [of cfg nowYear submissionId st]
  from ok have l: "links_ok st" and s: "\<forall>i<length (members st). savings_ok st i"
    by (simp_all add: ledger_ok_iff)
  have l': "links_ok ?st'"
    using l links_ok_cong [OF approveSubmission_links len] by simp
  have "map amount (submissions ?st') = map amount (submissions st)"
    "map fineAmount (submissions ?st') = map fineAmount (submissions st)"
    using lt nth by (simp_all add: ss map_update list_update_same_conv)
  from exact_range_cong [OF this] range have range': "exact_range (submissions ?st')"
    by simp
  from range have w: "list_all is_whole (map amount (submissions st))"
      "list_all is_whole (map fineAmount (submissions st))"
    and b: "sum_list (map (\<lambda>x. \<bar>int_of x\<bar>) (map amount (submissions st))) \<le> 2 ^ 53"
      "sum_list (map (\<lambda>x. \<bar>int_of x\<bar>) (map fineAmount (submissions st))) \<le> 2 ^ 53"
    by (simp_all add: exact_range_alt)
  have "\<forall>i<length (members ?st'). savings_ok ?st' i"
  proof (intro allI impI)
    fix i assume "i < length (members ?st')"
    with len have i: "i < length (members st)" by simp
    let ?P = "\<lambda>s. memberId s = Some i \<and> status s = Verified"
    have np: "\<not> ?P (submissions st ! submissionId)"
      using nth p by simp
    have sa: "sum_list (map (\<lambda>s. int_of (amount s)) (verifiedOf ?st' i)) =
        sum_list (map (\<lambda>s. int_of (amount s)) (verifiedOf st i)) +
          (if memberId sub = Some i then int_of (amount sub) else 0)"
      unfolding verifiedOf_alt ss
      using sum_filter_update [OF lt, of "\<lambda>s. int_of (amount s)" ?P "sub\<lparr>status := Verified\<rparr>"] np
      by simp
    have sf: "sum_list (map (\<lambda>s. int_of (fineAmount s)) (verifiedOf ?st' i)) =
        sum_list (map (\<lambda>s. int_of (fineAmount s)) (verifiedOf st i)) +
          (if memberId sub = Some i then int_of (fineAmount sub) else 0)"
      unfolding verifiedOf_alt ss
      using sum_filter_update [OF lt, of "\<lambda>s. int_of (fineAmount s)" ?P "sub\<lparr>status := Verified\<rparr>"] np
      by simp
    from s i have "savings_ok st i" by simp
    then have old: "totalSavings (members st ! i) =
          whole (sum_list (map (\<lambda>s. int_of (amount s)) (verifiedOf st i)))"
        "totalFines (members st ! i) =
          whole (sum_list (map (\<lambda>s. int_of (fineAmount s)) (verifiedOf st i)))"
      by (simp_all add: savings_ok_int [OF range])
    note tot = approveSubmission_totals [OF g p i, of cfg nowYear]
    show "savings_ok ?st' i"
    proof (cases "memberId sub = Some i")
      case False
      with tot old sa sf show ?thesis
        by (simp add: savings_ok_int [OF range'])
    next
      case True
      have ca: "js_add (counted (totalSavings (members st ! i))) (counted (amount sub)) =
          whole (sum_list (map (\<lambda>s. int_of (amount s)) (verifiedOf st i)) + int_of (amount sub))"
        using credit_exact [where f = amount and xs = "submissions st" and j = submissionId
            and P = ?P and t = "totalSavings (members st ! i)", OF w(1) b(1) lt np]
          old(1) nth
        by (simp add: verifiedOf_alt)
      have cf: "js_add (counted (totalFines (members st ! i))) (counted (fineAmount sub)) =
          whole (sum_list (map (\<lambda>s. int_of (fineAmount s)) (verifiedOf st i)) +
            int_of (fineAmount sub))"
        using credit_exact [where f = fineAmount and xs = "submissions st" and j = submissionId
            and P = ?P and t = "totalFines (members st ! i)", OF w(2) b(2) lt np]
          old(2) nth
        by (simp add: verifiedOf_alt)
      from True tot ca cf sa sf show ?thesis
        by (simp add: savings_ok_int [OF range'])
    qed
  qed
  with l' show ?thesis by (simp add: ledger_ok_iff)
qed

lemma ledger_recalculateMemberStats:
  assumes ok: "ledger_ok st"
    and range: "exact_range (submissions st)"
  shows "ledger_ok (snd (recalculateMemberStats cfg mid st))"
proof (cases "getMember st mid")
  case None
  with ok show ?thesis by (simp add: recalculate_missing)
next
  case (Some m)
  let ?st' = "snd (recalculateMemberStats cfg mid st)"
  from getMember_Some [OF Some] have lt: "mid < length (members st)" by simp
  have st': "?st' = st\<lparr>members := (members st)[mid := overwrite (recalculated cfg st mid) m]\<rparr>"
    by (simp add: recalculate_eq [OF Some])
  from ok have l: "links_ok st" and s: "\<forall>i<length (members st). savings_ok st i"
    by (simp_all add: ledger_ok_iff)
  have v: "\<And>i. verifiedOf ?st' i = verifiedOf st i"
    by (simp add: st' verifiedOf_alt)
  have "map memberId (submissions ?st') = map memberId (submissions st)"
    "length (members ?st') = length (members st)"
    by (simp_all add: st')
  from links_ok_cong [OF this] l have l': "links_ok ?st'"
    by simp
  from exact_range_filter [OF range] have "exact_range (verifiedOf st mid)"
    by (simp add: verifiedOf_alt)
  note ex = recalculated_exact [OF this, of cfg]
  have "\<forall>i<length (members ?st'). savings_ok ?st' i"
  proof (intro allI impI)
    fix i assume "i < length (members ?st')"
    then have i: "i < length (members st)" by (simp add: st')
    show "savings_ok ?st' i"
    proof (cases "i = mid")
      case True
      with lt ex show ?thesis
        unfolding savings_ok_def v
        by (simp add: st' overwrite_def)
    next
      case False
      with s i lt show ?thesis
        unfolding savings_ok_def v
        by (simp add: st')
    qed
  qed
  with l' show ?thesis by (simp add: ledger_ok_iff)
qed

lemma submissions_step:
  "\<exists>tl :: submission list.
        map amount (submissions (step D cfg x st)) = map amount (submissions st) @ map amount tl \<and>
        map fineAmount (submissions (step D cfg x st)) =
          map fineAmount (submissions st) @ map fineAmount tl"
proof (cases x)
  case (Register memberData)
  have "submissions (snd (registerMember D memberData st)) = submissions st"
    by (simp add: registerMember_def Let_def)
  with Register have "map amount (submissions (step D cfg x st)) =
        map amount (submissions st) @ map amount [] \<and>
      map fineAmount (submissions (step D cfg x st)) =
        map fineAmount (submissions st) @ map fineAmount []"
    by (simp add: step_def)
  then show ?thesis by blast
next
  case (Submit today submissionData)
  have "\<exists>tl. submissions (snd (submitPOP cfg today submissionData st)) = submissions st @ tl"
    by (auto simp: submitPOP_def Let_def split: option.splits prod.splits)
  then obtain tl where "submissions (snd (submitPOP cfg today submissionData st)) = submissions st @ tl"
    by blast
  with Submit have "map amount (submissions (step D cfg x st)) =
        map amount (submissions st) @ map amount tl \<and>
      map fineAmount (submissions (step D cfg x st)) =
        map fineAmount (submissions st) @ map fineAmount tl"
    by (simp add: step_def)
  then show ?thesis by blast
next
  case (Approve nowYear submissionId)
  have "map amount (submissions (snd (approveSubmission cfg nowYear submissionId st))) =
      map amount (submissions st) \<and>
    map fineAmount (submissions (snd (approveSubmission cfg nowYear submissionId st))) =
      map fineAmount (submissions st)"
    by (auto simp: approveSubmission_def getSubmission_def Let_def map_update
        list_update_same_conv split: option.splits if_splits)
  with Approve have "map amount (submissions (step D cfg x st)) =
        map amount (submissions st) @ map amount [] \<and>
      map fineAmount (submissions (step D cfg x st)) =
        map fineAmount (submissions st) @ map fineAmount []"
    by (simp add: step_def)
  then show ?thesis by blast
next
  case (Reject submissionId reason)
  have "map amount (submissions (snd (rejectSubmission submissionId reason st))) =
      map amount (submissions st) \<and>
    map fineAmount (submissions (snd (rejectSubmission submissionId reason st))) =
      map fineAmount (submissions st)"
    by (auto simp: rejectSubmission_def getSubmission_def Let_def map_update
        list_update_same_conv split: option.splits if_splits)
  with Reject have "map amount (submissions (step D cfg x st)) =
        map amount (submissions st) @ map amount [] \<and>
      map fineAmount (submissions (step D cfg x st)) =
        map fineAmount (submissions st) @ map fineAmount []"
    by (simp add: step_def)
  then show ?thesis by blast
next
  case (Recalculate mid)
  have "submissions (snd (recalculateMemberStats cfg mid st)) = submissions st"
    by (cases "getMember st mid") (simp_all add: recalculate_missing recalculate_eq)
  with Recalculate have "map amount (submissions (step D cfg x st)) =
        map amount (submissions st) @ map amount [] \<and>
      map fineAmount (submissions (step D cfg x st)) =
        map fineAmount (submissions st) @ map fineAmount []"
    by (simp add: step_def)
  then show ?thesis by blast
qed

lemma exact_range_step_back:
  assumes "exact_range (submissions (step D cfg x st))"
  shows "exact_range (submissions st)"
proof -
  from submissions_step [of D cfg x st] obtain tl where
    "map amount (submissions (step D cfg x st)) = map amount (submissions st @ tl)"
    "map fineAmount (submissions (step D cfg x st)) = map fineAmount (submissions st @ tl)"
    by auto
  from exact_range_cong [OF this] assms have "exact_range (submissions st @ tl)"
    by simp
  then show ?thesis
    by (rule exact_range_append)
qed

lemma exact_range_run_back:
  "exact_range (submissions (run D cfg ops st)) \<Longrightarrow> exact_range (submissions st)"
proof (induction ops arbitrary: st)
  case Nil
  then show ?case by (simp add: run_def)
next
  case (Cons x ops)
  then have "exact_range (submissions (run D cfg ops (step D cfg x st)))"
    by (simp add: run_def)
  from Cons.IH [OF this] show ?case
    by (rule exact_range_step_back)
qed

lemma ledger_step:
  "ledger_ok st \<Longrightarrow> exact_range (submissions st) \<Longrightarrow> ledger_ok (step D cfg x st)"
  by (cases x)
     (simp_all add: step_def ledger_registerMember ledger_submitPOP ledger_approveSubmission
        ledger_rejectSubmission ledger_recalculateMemberStats)

lemma ledger_run:
  "ledger_ok st \<Longrightarrow> exact_range (submissions (run D cfg ops st)) \<Longrightarrow>
   ledger_ok (run D cfg ops st)"
proof (induction ops arbitrary: st)
  case Nil
  then show ?case by (simp add: run_def)
next
  case (Cons x ops)
  from Cons.prems(2) have r: "exact_range (submissions (run D cfg ops (step D cfg x st)))"
    by (simp add: run_def)
  from exact_range_run_back [OF r] have "exact_range (submissions (step D cfg x st))" .
  from exact_range_step_back [OF this] Cons.prems(1) have "ledger_ok (step D cfg x st)"
    by (simp add: ledger_step)
  from Cons.IH [OF this r] show ?case
    by (simp add: run_def)
qed

text \<open>
  Through the dual-store module and the recalculation: after any sequence of
  operations from the empty store that ends in a store in the exact range, every
  member's totals are the sums of the amounts and fines of the member's verified
  submissions.
\<close>

lemma savings_hold_after_any_sequence:
  "exact_range (submissions (run D cfg ops empty_db)) \<Longrightarrow> ledger_ok (run D cfg ops empty_db)"
  by (rule ledger_run) (simp_all add: ledger_ok_def links_ok_def empty_db_def)

text \<open>
  C1. Through the dual-store module and the recalculation the invariant holds after
  every operation of any sequence, on amounts whose sums are not rounded
  (\<open>savings_hold_after_any_sequence\<close>). The single-store module breaks it, by the
  missing status check of C2: approving the same submission twice credits the member
  twice while one submission is verified, and rejecting a verified submission leaves
  the member credited for a submission that is no longer verified.
\<close>

theorem upd_double_approval_breaks_savings_invariant:
  "ledger_ok pending_db
   \<and> ledger_ok approved_once_db
   \<and> \<not> savings_ok (snd (upd_approveSubmission repo_settings 2026 0 (Some 0) approved_once_db)) 0
   \<and> totalSavings (members (snd (upd_approveSubmission repo_settings 2026 0 (Some 0)
         approved_once_db)) ! 0) = Num 600
   \<and> exact_sum (map amount (verifiedOf (snd (upd_approveSubmission repo_settings 2026 0 (Some 0)
         approved_once_db)) 0)) = Num 300
   \<and> \<not> savings_ok (snd (upd_rejectSubmission 0 ''duplicate'' approved_once_db)) 0
   \<and> totalSavings (members (snd (upd_rejectSubmission 0 ''duplicate'' approved_once_db)) ! 0) = Num 300
   \<and> exact_sum (map amount (verifiedOf (snd (upd_rejectSubmission 0 ''duplicate''
         approved_once_db)) 0)) = Num 0"
  by code_simp

section \<open>Verification of one-time passwords\<close>

text \<open>
  The check of part_001, clause by clause. It looks at \<open>used\<close> first: a used record
  fails and is left as it is; the clauses on expiry, exhaustion, mismatch and match
  are those of a record not yet used.
\<close>

lemma verifyOTP_no_record:
  "formatPhoneNumber ph = Some key \<Longrightarrow> store key = None \<Longrightarrow>
   verifyOTP now ph code store = (False, store)"
  by (simp add: verifyOTP_def)

lemma verifyOTP_invalid_phone:
  "formatPhoneNumber ph = None \<Longrightarrow> verifyOTP now ph code store = (False, store)"
  by (simp add: verifyOTP_def)

lemma verifyOTP_used:
  "formatPhoneNumber ph = Some key \<Longrightarrow> store key = Some d \<Longrightarrow> used d \<Longrightarrow>
   verifyOTP now ph code store = (False, store)"
  by (simp add: verifyOTP_def)

lemma verifyOTP_expired:
  "formatPhoneNumber ph = Some key \<Longrightarrow> store key = Some d \<Longrightarrow> \<not> used d \<Longrightarrow>
   now > expiresAt d \<Longrightarrow> verifyOTP now ph code store = (False, store(key := None))"
  by (simp add: verifyOTP_def)

lemma verifyOTP_exhausted:
  "formatPhoneNumber ph = Some key \<Longrightarrow> store key = Some d \<Longrightarrow> \<not> used d \<Longrightarrow>
   \<not> now > expiresAt d \<Longrightarrow> attempts d \<ge> 3 \<Longrightarrow>
   verifyOTP now ph code store = (False, store(key := None))"
  by (simp add: verifyOTP_def)

lemma verifyOTP_mismatch:
  "formatPhoneNumber ph = Some key \<Longrightarrow> store key = Some d \<Longrightarrow> \<not> used d \<Longrightarrow>
   \<not> now > expiresAt d \<Longrightarrow> attempts d < 3 \<Longrightarrow> otp d \<noteq> code \<Longrightarrow>
   verifyOTP now ph code store = (False, store(key \<mapsto> d\<lparr>attempts := attempts d + 1\<rparr>))"
  by (simp add: verifyOTP_def)

lemma verifyOTP_match:
  "formatPhoneNumber ph = Some key \<Longrightarrow> store key = Some d \<Longrightarrow> \<not> used d \<Longrightarrow>
   \<not> now > expiresAt d \<Longrightarrow> attempts d < 3 \<Longrightarrow> otp d = code \<Longrightarrow>
   verifyOTP now ph code store = (True, store(key \<mapsto> d\<lparr>used := True\<rparr>))"
  by (simp add: verifyOTP_def)

lemma verifyOTP_success_iff:
  "fst (verifyOTP now ph code store) =
     (\<exists>key d. formatPhoneNumber ph = Some key \<and> store key = Some d \<and> \<not> used d \<and>
        now \<le> expiresAt d \<and> attempts d < 3 \<and> otp d = code)"
  by (auto simp: verifyOTP_def split: option.splits)

text \<open>A code that has verified never verifies again, whatever is tried later.\<close>

lemma verifyOTP_after_success:
  assumes "fst (verifyOTP now ph code store) = True"
  shows "verifyOTP now' ph code' (snd (verifyOTP now ph code store)) =
           (False, snd (verifyOTP now ph code store))"
  using assms by (auto simp: verifyOTP_def split: option.splits if_splits)

text \<open>
  After a code is issued, three verifications with wrong codes make the fourth fail
  even with the right code, at whatever times the four attempts are made, and the
  record is gone afterwards.
\<close>

lemma verifyOTP_wrong_keeps_or_deletes:
  assumes "formatPhoneNumber ph = Some key" "store key = Some d" "\<not> used d" "otp d \<noteq> w"
  shows "snd (verifyOTP now ph w store) key = None \<or>
         snd (verifyOTP now ph w store) key = Some (d\<lparr>attempts := attempts d + 1\<rparr>)"
  using assms by (simp add: verifyOTP_def)

lemma verifyOTP_fourth_attempt_fails:
  assumes key: "formatPhoneNumber ph = Some key"
    and wrong: "w1 \<noteq> code" "w2 \<noteq> code" "w3 \<noteq> code"
    and s0_def: "s0 = snd (sendPasswordResetOTP t0 code True ph store)"
    and s1_def: "s1 = snd (verifyOTP t1 ph w1 s0)"
    and s2_def: "s2 = snd (verifyOTP t2 ph w2 s1)"
    and s3_def: "s3 = snd (verifyOTP t3 ph w3 s2)"
  shows "fst (verifyOTP t4 ph code s3) = False \<and> snd (verifyOTP t4 ph code s3) key = None"
proof -
  let ?d0 = "\<lparr>otp = code, expiresAt = t0 + 10 * 60 * 1000, used = False, attempts = 0\<rparr>"
  have s0: "s0 key = Some ?d0"
    using key by (simp add: s0_def sendPasswordResetOTP_def)
  have gone: "\<And>s t c. s key = None \<Longrightarrow> verifyOTP t ph c s = (False, s)"
    using key by (simp add: verifyOTP_def)
  have s1: "s1 key = None \<or> s1 key = Some (?d0\<lparr>attempts := 1\<rparr>)"
    using verifyOTP_wrong_keeps_or_deletes
        [where ph = ph and key = key and store = s0 and d = ?d0 and w = w1 and now = t1]
      key s0 wrong
    by (simp add: s1_def)
  have s2: "s2 key = None \<or> s2 key = Some (?d0\<lparr>attempts := 2\<rparr>)"
  proof -
    from s1 show ?thesis
    proof
      assume "s1 key = None"
      then show ?thesis by (simp add: s2_def gone)
    next
      assume a: "s1 key = Some (?d0\<lparr>attempts := 1\<rparr>)"
      from verifyOTP_wrong_keeps_or_deletes
        [where ph = ph and key = key and store = s1 and d = "?d0\<lparr>attempts := 1\<rparr>"
           and w = w2 and now = t2]
        key a wrong
      show ?thesis by (simp add: s2_def)
    qed
  qed
  have s3: "s3 key = None \<or> s3 key = Some (?d0\<lparr>attempts := 3\<rparr>)"
  proof -
    from s2 show ?thesis
    proof
      assume "s2 key = None"
      then show ?thesis by (simp add: s3_def gone)
    next
      assume a: "s2 key = Some (?d0\<lparr>attempts := 2\<rparr>)"
      from verifyOTP_wrong_keeps_or_deletes
        [where ph = ph and key = key and store = s2 and d = "?d0\<lparr>attempts := 2\<rparr>"
           and w = w3 and now = t3]
        key a wrong
      show ?thesis by (simp add: s3_def)
    qed
  qed
  from s3 show ?thesis
  proof
    assume "s3 key = None"
    then show ?thesis by (simp add: gone)
  next
    assume "s3 key = Some (?d0\<lparr>attempts := 3\<rparr>)"
    with key show ?thesis by (simp add: verifyOTP_def)
  qed
qed

lemma verifyOTP_exhausted_after_three_wrong:
  assumes key: "formatPhoneNumber ph = Some key"
    and wrong: "w1 \<noteq> code" "w2 \<noteq> code" "w3 \<noteq> code"
    and intime: "t1 \<le> t0 + 10 * 60 * 1000" "t2 \<le> t0 + 10 * 60 * 1000"
      "t3 \<le> t0 + 10 * 60 * 1000" "t4 \<le> t0 + 10 * 60 * 1000"
    and s0_def: "s0 = snd (sendPasswordResetOTP t0 code True ph store)"
    and s1_def: "s1 = snd (verifyOTP t1 ph w1 s0)"
    and s2_def: "s2 = snd (verifyOTP t2 ph w2 s1)"
    and s3_def: "s3 = snd (verifyOTP t3 ph w3 s2)"
  shows "s3 key = Some \<lparr>otp = code, expiresAt = t0 + 10 * 60 * 1000, used = False, attempts = 3\<rparr>
       \<and> verifyOTP t4 ph code s3 = (False, s3(key := None))"
proof -
  let ?d0 = "\<lparr>otp = code, expiresAt = t0 + 10 * 60 * 1000, used = False, attempts = 0\<rparr>"
  have s0: "s0 key = Some ?d0"
    using key by (simp add: s0_def sendPasswordResetOTP_def)
  have s1: "s1 key = Some (?d0\<lparr>attempts := 1\<rparr>)"
    using key s0 wrong intime by (simp add: s1_def verifyOTP_def)
  have s2: "s2 key = Some (?d0\<lparr>attempts := 2\<rparr>)"
    using key s1 wrong intime by (simp add: s2_def verifyOTP_def)
  have s3: "s3 key = Some (?d0\<lparr>attempts := 3\<rparr>)"
    using key s2 wrong intime by (simp add: s3_def verifyOTP_def)
  with key intime show ?thesis
    by (simp add: verifyOTP_def)
qed

lemma mp_verifyOTP_wrong_changes_nothing:
  assumes "store (mp_formatPhoneNumber ph) = Some d" "otp d \<noteq> w"
  shows "mp_verifyOTP now ph w store = (False, store)"
  using assms by (simp add: mp_verifyOTP_def Let_def)

lemma mp_verifyOTP_never_deletes:
  "store k = Some d \<Longrightarrow> snd (mp_verifyOTP now ph code store) k \<noteq> None"
  by (simp add: mp_verifyOTP_def Let_def split: option.splits)

text \<open>
  The check of part_001 as a whole. \<open>verifyOTP\<close> fails and changes nothing when the
  phone number is invalid, when the phone has no record, and when the record is used
  (a used record is not deleted, whatever its expiry and its attempts). On a record
  not yet used it fails and deletes the record when the current time is past
  \<open>expiresAt\<close>; otherwise it fails and deletes the record when \<open>attempts\<close> is 3 or more;
  otherwise, on a code mismatch, it increments \<open>attempts\<close> and fails; otherwise it marks
  the record used and succeeds. After a success no later call for that phone succeeds.
  After a code is issued and three wrong codes are tried, whenever they are tried, a
  fourth attempt with the right code fails and leaves the phone without a record.
\<close>

lemma otp_verification_cases:
  "(formatPhoneNumber ph = None \<longrightarrow> verifyOTP now ph code store = (False, store))
   \<and> (formatPhoneNumber ph = Some key \<and> store key = None \<longrightarrow>
        verifyOTP now ph code store = (False, store))
   \<and> (formatPhoneNumber ph = Some key \<and> store key = Some d \<and> used d \<longrightarrow>
        verifyOTP now ph code store = (False, store))
   \<and> (formatPhoneNumber ph = Some key \<and> store key = Some d \<and> \<not> used d \<and>
        now > expiresAt d \<longrightarrow>
        verifyOTP now ph code store = (False, store(key := None)))
   \<and> (formatPhoneNumber ph = Some key \<and> store key = Some d \<and> \<not> used d \<and>
        now \<le> expiresAt d \<and> attempts d \<ge> 3 \<longrightarrow>
        verifyOTP now ph code store = (False, store(key := None)))
   \<and> (formatPhoneNumber ph = Some key \<and> store key = Some d \<and> \<not> used d \<and>
        now \<le> expiresAt d \<and> attempts d < 3 \<and> otp d \<noteq> code \<longrightarrow>
        verifyOTP now ph code store = (False, store(key \<mapsto> d\<lparr>attempts := attempts d + 1\<rparr>)))
   \<and> (formatPhoneNumber ph = Some key \<and> store key = Some d \<and> \<not> used d \<and>
        now \<le> expiresAt d \<and> attempts d < 3 \<and> otp d = code \<longrightarrow>
        verifyOTP now ph code store = (True, store(key \<mapsto> d\<lparr>used := True\<rparr>)))
   \<and> (fst (verifyOTP now ph code store) \<longrightarrow>
        verifyOTP now' ph code' (snd (verifyOTP now ph code store)) =
          (False, snd (verifyOTP now ph code store)))
   \<and> (formatPhoneNumber ph = Some key \<and> w1 \<noteq> code \<and> w2 \<noteq> code \<and> w3 \<noteq> code \<longrightarrow>
        fst (verifyOTP t4 ph code
               (snd (verifyOTP t3 ph w3 (snd (verifyOTP t2 ph w2 (snd (verifyOTP t1 ph w1
                 (snd (sendPasswordResetOTP t0 code True ph store))))))))) = False \<and>
        snd (verifyOTP t4 ph code
               (snd (verifyOTP t3 ph w3 (snd (verifyOTP t2 ph w2 (snd (verifyOTP t1 ph w1
                 (snd (sendPasswordResetOTP t0 code True ph store))))))))) key = None)"
proof (intro conjI impI)
  assume "formatPhoneNumber ph = None"
  then show "verifyOTP now ph code store = (False, store)"
    by (rule verifyOTP_invalid_phone)
next
  assume "formatPhoneNumber ph = Some key \<and> store key = None"
  then show "verifyOTP now ph code store = (False, store)"
    by (simp add: verifyOTP_def)
next
  assume "formatPhoneNumber ph = Some key \<and> store key = Some d \<and> used d"
  then show "verifyOTP now ph code store = (False, store)"
    by (simp add: verifyOTP_def)
next
  assume "formatPhoneNumber ph = Some key \<and> store key = Some d \<and> \<not> used d \<and>
        now > expiresAt d"
  then show "verifyOTP now ph code store = (False, store(key := None))"
    by (simp add: verifyOTP_def)
next
  assume "formatPhoneNumber ph = Some key \<and> store key = Some d \<and> \<not> used d \<and>
        now \<le> expiresAt d \<and> attempts d \<ge> 3"
  then show "verifyOTP now ph code store = (False, store(key := None))"
    by (simp add: verifyOTP_def)
next
  assume "formatPhoneNumber ph = Some key \<and> store key = Some d \<and> \<not> used d \<and>
        now \<le> expiresAt d \<and> attempts d < 3 \<and> otp d \<noteq> code"
  then show "verifyOTP now ph code store =
      (False, store(key \<mapsto> d\<lparr>attempts := attempts d + 1\<rparr>))"
    by (simp add: verifyOTP_def)
next
  assume "formatPhoneNumber ph = Some key \<and> store key = Some d \<and> \<not> used d \<and>
        now \<le> expiresAt d \<and> attempts d < 3 \<and> otp d = code"
  then show "verifyOTP now ph code store = (True, store(key \<mapsto> d\<lparr>used := True\<rparr>))"
    by (simp add: verifyOTP_def)
next
  assume "fst (verifyOTP now ph code store)"
  then show "verifyOTP now' ph code' (snd (verifyOTP now ph code store)) =
          (False, snd (verifyOTP now ph code store))"
    by (simp add: verifyOTP_after_success)
next
  assume a: "formatPhoneNumber ph = Some key \<and> w1 \<noteq> code \<and> w2 \<noteq> code \<and> w3 \<noteq> code"
  then have k: "formatPhoneNumber ph = Some key" and w: "w1 \<noteq> code" "w2 \<noteq> code" "w3 \<noteq> code"
    by simp_all
  note f = verifyOTP_fourth_attempt_fails [OF k w refl refl refl refl,
      of t4 t3 t2 t1 t0 store]
  from f show "fst (verifyOTP t4 ph code
               (snd (verifyOTP t3 ph w3 (snd (verifyOTP t2 ph w2 (snd (verifyOTP t1 ph w1
                 (snd (sendPasswordResetOTP t0 code True ph store))))))))) = False"
    by (rule conjunct1)
  from f show "snd (verifyOTP t4 ph code
               (snd (verifyOTP t3 ph w3 (snd (verifyOTP t2 ph w2 (snd (verifyOTP t1 ph w1
                 (snd (sendPasswordResetOTP t0 code True ph store))))))))) key = None"
    by (rule conjunct2)
qed

lemma otp_verification_cases_example:
  "(formatPhoneNumber ''12'' = None
      \<and> verifyOTP 0 ''12'' ''123456'' fresh_store = (False, fresh_store))
   \<and> (formatPhoneNumber ''0821234567'' = Some ''27821234567''
      \<and> (Map.empty :: otp_store) ''27821234567'' = None
      \<and> verifyOTP 0 ''0821234567'' ''123456'' Map.empty = (False, Map.empty))
   \<and> (used_store ''27821234567'' =
          Some \<lparr>otp = ''123456'', expiresAt = 600000, used = True, attempts = 0\<rparr>
      \<and> verifyOTP 2000 ''0821234567'' ''123456'' used_store = (False, used_store))
   \<and> (fresh_store ''27821234567'' =
          Some \<lparr>otp = ''123456'', expiresAt = 600000, used = False, attempts = 0\<rparr>
      \<and> verifyOTP 700000 ''0821234567'' ''123456'' fresh_store =
          (False, fresh_store(''27821234567'' := None)))
   \<and> (tried3_store ''27821234567'' =
          Some \<lparr>otp = ''123456'', expiresAt = 600000, used = False, attempts = 3\<rparr>
      \<and> verifyOTP 4000 ''0821234567'' ''123456'' tried3_store =
          (False, tried3_store(''27821234567'' := None)))
   \<and> verifyOTP 1000 ''0821234567'' ''000000'' fresh_store =
          (False, fresh_store(''27821234567'' \<mapsto>
             \<lparr>otp = ''123456'', expiresAt = 600000, used = False, attempts = 1\<rparr>))
   \<and> verifyOTP 1000 ''0821234567'' ''123456'' fresh_store =
          (True, fresh_store(''27821234567'' \<mapsto>
             \<lparr>otp = ''123456'', expiresAt = 600000, used = True, attempts = 0\<rparr>))
   \<and> (fst (verifyOTP 1000 ''0821234567'' ''123456'' fresh_store)
      \<and> verifyOTP 2000 ''0821234567'' ''123456''
          (snd (verifyOTP 1000 ''0821234567'' ''123456'' fresh_store)) =
          (False, snd (verifyOTP 1000 ''0821234567'' ''123456'' fresh_store)))
   \<and> (fst (verifyOTP 4000 ''0821234567'' ''123456''
             (snd (verifyOTP 3000 ''0821234567'' ''222222''
               (snd (verifyOTP 2000 ''0821234567'' ''111111''
                 (snd (verifyOTP 1000 ''0821234567'' ''000000''
                   (snd (sendPasswordResetOTP 0 ''123456'' True ''0821234567''
                          Map.empty))))))))) = False
      \<and> snd (verifyOTP 4000 ''0821234567'' ''123456''
             (snd (verifyOTP 3000 ''0821234567'' ''222222''
               (snd (verifyOTP 2000 ''0821234567'' ''111111''
                 (snd (verifyOTP 1000 ''0821234567'' ''000000''
                   (snd (sendPasswordResetOTP 0 ''123456'' True ''0821234567''
                          Map.empty))))))))) ''27821234567'' = None)"
proof -
  let ?ph = "''0821234567''" and ?key = "''27821234567''"
  let ?d0 = "\<lparr>otp = ''123456'', expiresAt = 600000, used = False, attempts = 0\<rparr>"
  let ?d3 = "\<lparr>otp = ''123456'', expiresAt = 600000, used = False, attempts = 3\<rparr>"
  let ?du = "\<lparr>otp = ''123456'', expiresAt = 600000, used = True, attempts = 0\<rparr>"
  have bad: "formatPhoneNumber ''12'' = None"
    by code_simp
  have key: "formatPhoneNumber ?ph = Some ?key"
    by code_simp
  have none: "(Map.empty :: otp_store) ?key = None"
    by simp
  have fresh: "fresh_store ?key = Some ?d0"
    by code_simp
  have usedr: "used_store ?key = Some ?du"
    by code_simp
  have tried: "tried3_store ?key = Some ?d3"
    by code_simp
  have c1: "verifyOTP 0 ''12'' ''123456'' fresh_store = (False, fresh_store)"
    using otp_verification_cases [where ph = "''12''" and now = 0 and code = "''123456''"
        and store = fresh_store, THEN conjunct1] bad
    by (rule mp)
  have c2: "verifyOTP 0 ?ph ''123456'' Map.empty = (False, Map.empty)"
    using otp_verification_cases [where ph = ?ph and now = 0 and code = "''123456''"
        and store = Map.empty and key = ?key, THEN conjunct2, THEN conjunct1] key none
    by simp
  have c3: "verifyOTP 2000 ?ph ''123456'' used_store = (False, used_store)"
    using otp_verification_cases [where ph = ?ph and now = 2000 and code = "''123456''"
        and store = used_store and key = ?key and d = ?du,
        THEN conjunct2, THEN conjunct2, THEN conjunct1] key usedr
    by simp
  have c4: "verifyOTP 700000 ?ph ''123456'' fresh_store = (False, fresh_store(?key := None))"
    using otp_verification_cases [where ph = ?ph and now = 700000 and code = "''123456''"
        and store = fresh_store and key = ?key and d = ?d0,
        THEN conjunct2, THEN conjunct2, THEN conjunct2, THEN conjunct1] key fresh
    by simp
  have c5: "verifyOTP 4000 ?ph ''123456'' tried3_store = (False, tried3_store(?key := None))"
    using otp_verification_cases [where ph = ?ph and now = 4000 and code = "''123456''"
        and store = tried3_store and key = ?key and d = ?d3,
        THEN conjunct2, THEN conjunct2, THEN conjunct2, THEN conjunct2, THEN conjunct1]
      key tried
    by simp
  have c6: "verifyOTP 1000 ?ph ''000000'' fresh_store =
      (False, fresh_store(?key \<mapsto> \<lparr>otp = ''123456'', expiresAt = 600000, used = False, attempts = 1\<rparr>))"
    using otp_verification_cases [where ph = ?ph and now = 1000 and code = "''000000''"
        and store = fresh_store and key = ?key and d = ?d0,
        THEN conjunct2, THEN conjunct2, THEN conjunct2, THEN conjunct2, THEN conjunct2,
        THEN conjunct1] key fresh
    by simp
  have c7: "verifyOTP 1000 ?ph ''123456'' fresh_store = (True, fresh_store(?key \<mapsto> ?du))"
    using otp_verification_cases [where ph = ?ph and now = 1000 and code = "''123456''"
        and store = fresh_store and key = ?key and d = ?d0,
        THEN conjunct2, THEN conjunct2, THEN conjunct2, THEN conjunct2, THEN conjunct2,
        THEN conjunct2, THEN conjunct1] key fresh
    by simp
  have h8: "fst (verifyOTP 1000 ?ph ''123456'' fresh_store)"
    by (simp add: c7)
  have c8: "verifyOTP 2000 ?ph ''123456'' (snd (verifyOTP 1000 ?ph ''123456'' fresh_store)) =
      (False, snd (verifyOTP 1000 ?ph ''123456'' fresh_store))"
    using otp_verification_cases [where ph = ?ph and now = 1000 and code = "''123456''"
        and store = fresh_store and now' = 2000 and code' = "''123456''",
        THEN conjunct2, THEN conjunct2, THEN conjunct2, THEN conjunct2, THEN conjunct2,
        THEN conjunct2, THEN conjunct2, THEN conjunct1] h8
    by (rule mp)
  have c9: "fst (verifyOTP 4000 ?ph ''123456''
             (snd (verifyOTP 3000 ?ph ''222222''
               (snd (verifyOTP 2000 ?ph ''111111''
                 (snd (verifyOTP 1000 ?ph ''000000''
                   (snd (sendPasswordResetOTP 0 ''123456'' True ?ph Map.empty))))))))) = False
      \<and> snd (verifyOTP 4000 ?ph ''123456''
             (snd (verifyOTP 3000 ?ph ''222222''
               (snd (verifyOTP 2000 ?ph ''111111''
                 (snd (verifyOTP 1000 ?ph ''000000''
                   (snd (sendPasswordResetOTP 0 ''123456'' True ?ph Map.empty))))))))) ?key = None"
    using otp_verification_cases [where ph = ?ph and code = "''123456''" and key = ?key
        and ?w1.0 = "''000000''" and ?w2.0 = "''111111''" and ?w3.0 = "''222222''"
        and ?t0.0 = 0 and ?t1.0 = 1000 and ?t2.0 = 2000 and ?t3.0 = 3000 and ?t4.0 = 4000
        and store = Map.empty,
        THEN conjunct2, THEN conjunct2, THEN conjunct2, THEN conjunct2, THEN conjunct2,
        THEN conjunct2, THEN conjunct2, THEN conjunct2] key
    by simp
  show ?thesis
    by (intro conjI bad c1 key none c2 usedr c3 fresh c4 tried c5 c6 c7 h8 c8
        c9 [THEN conjunct1] c9 [THEN conjunct2])
qed

text \<open>
  A used record is refused before its expiry is looked at: a record that has verified
  and is past its expiry is refused, and it is not deleted.
\<close>

lemma used_expired_record_is_kept:
  "fst (verifyOTP 1000 ''0821234567'' ''123456'' fresh_store) = True
   \<and> used_store ''27821234567'' =
       Some \<lparr>otp = ''123456'', expiresAt = 600000, used = True, attempts = 0\<rparr>
   \<and> fst (verifyOTP 700000 ''0821234567'' ''123456'' used_store) = False
   \<and> snd (verifyOTP 700000 ''0821234567'' ''123456'' used_store) ''27821234567'' =
       Some \<lparr>otp = ''123456'', expiresAt = 600000, used = True, attempts = 0\<rparr>"
  by code_simp

text \<open>
  The check of js/sms.js. A wrong code changes nothing in the store, so wrong codes
  are never counted: after any number of them the right code still verifies, as long
  as the record has not expired. No call deletes a record.
\<close>

lemma mp_wrong_codes_change_nothing:
  assumes "store (mp_formatPhoneNumber ph) = Some d"
    and "list_all (\<lambda>tw. snd tw \<noteq> otp d) tries"
  shows "fold (\<lambda>tw s. snd (mp_verifyOTP (fst tw) ph (snd tw) s)) tries store = store"
  using assms
proof (induction tries)
  case Nil
  show ?case by simp
next
  case (Cons tw tries)
  from Cons.prems have "otp d \<noteq> snd tw"
    by auto
  with Cons.prems(1) have "mp_verifyOTP (fst tw) ph (snd tw) store = (False, store)"
    by (rule mp_verifyOTP_wrong_changes_nothing)
  with Cons show ?case by simp
qed

lemma mp_right_code_after_wrong_codes:
  assumes rec: "store (mp_formatPhoneNumber ph) = Some d" "\<not> used d" "now < expiresAt d"
    and wrong: "list_all (\<lambda>tw. snd tw \<noteq> otp d) tries"
  shows "fst (mp_verifyOTP now ph (otp d)
           (fold (\<lambda>tw s. snd (mp_verifyOTP (fst tw) ph (snd tw) s)) tries store)) = True"
proof -
  have "fold (\<lambda>tw s. snd (mp_verifyOTP (fst tw) ph (snd tw) s)) tries store = store"
    using rec(1) wrong by (rule mp_wrong_codes_change_nothing)
  with rec show ?thesis
    by (simp add: mp_verifyOTP_def Let_def)
qed

text \<open>
  C9. The check of part_001 does what the claim describes (\<open>otp_verification_cases\<close>,
  with \<open>used\<close> tested first). The check of js/sms.js, which the password reset of
  js/auth.js calls, keeps no attempt counter and deletes nothing: evaluated on a code
  issued at time 0, three wrong codes are refused and the fourth attempt, with the
  right code and before expiry, succeeds; an expired record is refused but stays in
  the store.
\<close>

theorem mp_verify_fourth_attempt_succeeds:
  "fst (mp_verifyOTP 1000 ''0821234567'' ''000000'' issued_store) = False
   \<and> fst (mp_verifyOTP 2000 ''0821234567'' ''111111''
           (snd (mp_verifyOTP 1000 ''0821234567'' ''000000'' issued_store))) = False
   \<and> fst (mp_verifyOTP 3000 ''0821234567'' ''222222''
           (snd (mp_verifyOTP 2000 ''0821234567'' ''111111''
             (snd (mp_verifyOTP 1000 ''0821234567'' ''000000'' issued_store))))) = False
   \<and> fst (mp_verifyOTP 4000 ''0821234567'' ''123456''
           (snd (mp_verifyOTP 3000 ''0821234567'' ''222222''
             (snd (mp_verifyOTP 2000 ''0821234567'' ''111111''
               (snd (mp_verifyOTP 1000 ''0821234567'' ''000000'' issued_store))))))) = True
   \<and> fst (mp_verifyOTP 700000 ''0821234567'' ''123456'' issued_store) = False
   \<and> snd (mp_verifyOTP 700000 ''0821234567'' ''123456'' issued_store) ''+27821234567''
       = issued_store ''+27821234567''
   \<and> issued_store ''+27821234567'' =
       Some \<lparr>otp = ''123456'', expiresAt = 600000, used = False, attempts = 0\<rparr>"
  by code_simp

section \<open>Repair by recalculation, and the example store\<close>

text \<open>
  Recalculating a member that exists leaves that member's count invariant true, and
  the savings invariant too when the sums of the member's verified amounts are not
  rounded; and the one-member store of the worked examples is what
  the single-store registration leaves, up to the password digest.
\<close>

lemma recalculate_restores_invariants:
  assumes "getMember st mid = Some m"
    and range: "exact_range (verifiedOf st mid)"
  shows "savings_ok (snd (recalculateMemberStats cfg mid st)) mid
       \<and> counts_ok (snd (recalculateMemberStats cfg mid st)) mid"
proof -
  from getMember_Some [OF assms(1)] have lt: "mid < length (members st)" by simp
  have v: "verifiedOf (snd (recalculateMemberStats cfg mid st)) mid = verifiedOf st mid"
    by (simp add: recalculate_eq [OF assms(1)] verifiedOf_alt)
  show ?thesis
    unfolding savings_ok_def counts_ok_def v
    using lt counts_recalculated [of cfg st mid] recalculated_exact [OF range, of cfg]
    by (simp add: recalculate_eq [OF assms(1)] overwrite_def)
qed

lemma one_member_db_reachable:
  "upd_registerMember D ''K7P2''
     \<lparr>reg_name = ''Thabo'', reg_idNumber = ''8001015009087'', reg_phone = ''082 123-4567'',
      reg_password = pw\<rparr> empty_db =
   (Inr (0, Random ''K7P2''),
    one_member_db\<lparr>members := [thabo\<lparr>passwordHash := upd_hashPassword D pw\<rparr>]\<rparr>)"
  by (simp add: upd_registerMember_def getMemberByPhone_def getMemberByIdNumber_def
      empty_db_def one_member_db_def thabo_def new_member_def Let_def
      normalizePhone_def is_space_def trim_def)

end
